theory Spec2Isabelle
  imports Complex_Main "HOL-Library.Word" "HOL-Library.Signed_Division" "HOL-Library.Monad_Syntax"
begin

section \<open>Data model (video_functions.h)\<close>

text \<open>
  Samples are \<open>unsigned char\<close>; the order on \<open>8 word\<close> is the unsigned one, which is
  what C computes after promoting both operands to \<open>int\<close>.
\<close>

type_synonym byte = "8 word"

text \<open>
  The four scalars shared by \<open>Video\<close> and \<open>SVideo\<close>. \<open>num_frames\<close> is a C \<open>long\<close>
  (64 bits, read as a signed value with \<open>sint\<close>).
\<close>

record header =
  num_frames :: "64 word"
  channels :: byte
  height :: byte
  width :: byte

text \<open>
  \<open>Video\<close>: the header and \<open>unsigned char *data\<close>. \<open>None\<close> is the null pointer, and
  \<open>Some d\<close> a buffer whose allocation holds exactly the bytes of \<open>d\<close>.
\<close>

record Video = header +
  data :: "byte list option"

text \<open>
  What a call leaves behind: \<open>Done\<close> when it ran to its end, \<open>Reported\<close> when it
  printed a message on stderr and returned early, \<open>Null_dereference\<close> when it read a
  field through a null pointer. The argument is the store (\<open>None\<close> for a null pointer) as
  the caller finds it after the call.
\<close>

datatype 'v run = Done "'v option" | Reported string "'v option" | Null_dereference

text \<open>The macro \<open>CLAMP(value, min, max)\<close>.\<close>

definition CLAMP :: "'a::linorder \<Rightarrow> 'a \<Rightarrow> 'a \<Rightarrow> 'a" where
  "CLAMP v minv maxv = (if v < minv then minv else (if v > maxv then maxv else v))"

text \<open>
  \<open>frame_size = channels * height * width\<close> and \<open>channel_size = height * width\<close>: the
  operands are promoted to \<open>int\<close>, the products stay below \<open>2^24\<close>, so the value stored
  in the \<open>size_t\<close> is the exact product.
\<close>

definition frame_size :: "'a header_scheme \<Rightarrow> nat" where
  "frame_size v = unat (channels v) * unat (height v) * unat (width v)"

definition channel_size :: "'a header_scheme \<Rightarrow> nat" where
  "channel_size v = unat (height v) * unat (width v)"

text \<open>The number of iterations of \<open>for (long i = 0; i < num_frames; i++)\<close>.\<close>

definition nframes :: "'a header_scheme \<Rightarrow> nat" where
  "nframes v = nat (sint (num_frames v))"

section \<open>The on-disk format and its files\<close>

text \<open>
  A file is the list of its bytes. \<open>fread n\<close> models a read of \<open>n\<close> bytes from the
  current position that the caller compares with \<open>n\<close>: \<open>None\<close> is the short read,
  otherwise the bytes read and the rest of the file.
\<close>

definition fread :: "nat \<Rightarrow> byte list \<Rightarrow> (byte list \<times> byte list) option" where
  "fread n s = (if n \<le> length s then Some (take n s, drop n s) else None)"

text \<open>
  The object representation of a \<open>long\<close> on the host (x86-64, least significant byte
  first), as \<open>fwrite(&video->num_frames, sizeof(long), 1, file)\<close> writes it and
  \<open>fread\<close> reads it back.
\<close>

definition long_bytes :: "64 word \<Rightarrow> byte list" where
  "long_bytes n = map (\<lambda>k. ucast (drop_bit (8 * k) n)) [0..<8]"

definition bytes_long :: "byte list \<Rightarrow> 64 word" where
  "bytes_long bs = of_int (horner_sum uint (2 ^ 8) bs)"

text \<open>
  \<open>fwrite\<close> appends to the file being written; the device takes \<open>room\<close> more bytes
  and the write that does not fit is the one that fails. The stream is taken as
  unbuffered: with the buffer of stdio a write that the device refuses can be reported
  only by a later call, or by \<open>fclose\<close>, whose result \<open>encode\<close> and \<open>encode_S\<close> do not
  read. The statements about written files therefore state the room on the device as a
  hypothesis, under which every write is complete in both readings.
\<close>

record out_file =
  written :: "byte list"
  room :: nat

definition fwrite :: "byte list \<Rightarrow> out_file \<Rightarrow> out_file option" where
  "fwrite buf f =
     (if length buf \<le> room f
      then Some \<lparr>written = written f @ buf, room = room f - length buf\<rparr>
      else None)"

text \<open>
  The four header writes of \<open>encode\<close> and \<open>encode_S\<close>, joined by \<open>||\<close>: the first
  one that fails ends them.
\<close>

definition write_header :: "'a header_scheme \<Rightarrow> out_file \<Rightarrow> out_file option" where
  "write_header v f =
     (case fwrite (long_bytes (num_frames v)) f of None \<Rightarrow> None
      | Some f1 \<Rightarrow> (case fwrite [channels v] f1 of None \<Rightarrow> None
      | Some f2 \<Rightarrow> (case fwrite [height v] f2 of None \<Rightarrow> None
      | Some f3 \<Rightarrow> fwrite [width v] f3)))"

text \<open>
  The four header reads of \<open>decode\<close> and \<open>decode_S\<close>, joined by \<open>||\<close>; the result
  is the header and the rest of the file.
\<close>

definition read_header :: "byte list \<Rightarrow> (header \<times> byte list) option" where
  "read_header s =
     (case fread 8 s of None \<Rightarrow> None
      | Some (b_frames, s1) \<Rightarrow> (case fread 1 s1 of None \<Rightarrow> None
      | Some (b_channels, s2) \<Rightarrow> (case fread 1 s2 of None \<Rightarrow> None
      | Some (b_height, s3) \<Rightarrow> (case fread 1 s3 of None \<Rightarrow> None
      | Some (b_width, s4) \<Rightarrow>
          Some (\<lparr>num_frames = bytes_long b_frames, channels = hd b_channels,
                 height = hd b_height, width = hd b_width\<rparr>, s4)))))"

text \<open>
  \<open>size_t total_size = frame_size * video->num_frames\<close>: the \<open>long\<close> is converted to
  \<open>size_t\<close> and the product is taken modulo \<open>2^64\<close>.
\<close>

definition total_size :: "'a header_scheme \<Rightarrow> nat" where
  "total_size v = (frame_size v * unat (num_frames v)) mod 2 ^ 64"

section \<open>Flat layout: decode and encode\<close>

text \<open>
  \<open>decode file video_alloc data_alloc\<close>: \<open>file\<close> is what \<open>fopen(filename, "rb")\<close>
  finds (\<open>None\<close> when it fails), the two flags say whether \<open>malloc(sizeof(Video))\<close> and
  \<open>malloc(total_size)\<close> return memory. \<open>Inl\<close> carries the message given to
  \<open>perror\<close> on the paths that return \<open>NULL\<close>.
\<close>

definition decode :: "byte list option \<Rightarrow> bool \<Rightarrow> bool \<Rightarrow> string + Video" where
  "decode file video_alloc data_alloc =
     (case file of
        None \<Rightarrow> Inl ''Error opening file''
      | Some s \<Rightarrow>
          if \<not> video_alloc then Inl ''Error allocating memory for Video''
          else (case read_header s of
            None \<Rightarrow> Inl ''Error reading video header''
          | Some (h, rest) \<Rightarrow>
              if \<not> data_alloc then Inl ''Error allocating memory for frame data''
              else (case fread (total_size h) rest of
                None \<Rightarrow> Inl ''Error reading frame data''
              | Some (d, _) \<Rightarrow>
                  Inr \<lparr>num_frames = num_frames h, channels = channels h,
                       height = height h, width = width h, data = Some d\<rparr>)))"

text \<open>
  \<open>encode filename dev video\<close>: \<open>filename\<close> is \<open>None\<close> for a null pointer,
  \<open>dev\<close> is what \<open>fopen(filename, "wb")\<close> meets (\<open>None\<close> when it fails, else the
  room on the device for the new, empty file). \<open>Inl\<close> carries the message of the paths that
  return \<open>-1\<close>, \<open>Inr\<close> the bytes of the file when the function returns \<open>0\<close>.
  \<open>fwrite(video->data, 1, total_size, file)\<close> writes the first \<open>total_size\<close> bytes of
  the buffer. The code does not test \<open>video->data\<close>: a store without a buffer is given
  here as one with no bytes to write, and every statement below about \<open>encode\<close> is about
  a store that has its buffer (\<open>data v = Some d\<close>).
\<close>

definition encode :: "string option \<Rightarrow> nat option \<Rightarrow> Video option \<Rightarrow> string + byte list" where
  "encode filename dev video =
     (case (filename, video) of
        (None, _) \<Rightarrow> Inl ''Invalid input to encode function.''
      | (_, None) \<Rightarrow> Inl ''Invalid input to encode function.''
      | (Some _, Some v) \<Rightarrow>
         (case dev of
            None \<Rightarrow> Inl ''Error opening file for writing''
          | Some r \<Rightarrow>
             (case write_header v \<lparr>written = [], room = r\<rparr> of
                None \<Rightarrow> Inl ''Error writing video header''
              | Some f1 \<Rightarrow>
                 (case fwrite (take (total_size v) (case data v of None \<Rightarrow> [] | Some d \<Rightarrow> d)) f1 of
                    None \<Rightarrow> Inl ''Error writing frame data''
                  | Some f2 \<Rightarrow> Inr (written f2)))))"

section \<open>Arena layout: the store\<close>

text \<open>
  \<open>SVideo\<close> owns one allocation cut into three regions: \<open>num_frames\<close> records
  \<open>Frame\<close>, then \<open>num_frames * channels\<close> records \<open>Channel\<close>, then the pixel bytes.
  A \<open>Frame\<close> holds the pointer \<open>Channel *channels\<close>, kept here as the index of the
  record it points to, counted from \<open>channels_block\<close>; a \<open>Channel\<close> holds the
  pointer \<open>unsigned char *data\<close>, kept as the byte offset from \<open>data_block\<close>. The
  transforms and the binary codec never move the allocation, so both bases are fixed
  while they run. \<open>frames = None\<close> is the null pointer.
\<close>

record arena =
  frame_descs :: "nat list"
  channel_descs :: "nat list"
  payload :: "byte list"

record SVideo = header +
  frames :: "arena option"

text \<open>\<open>video->frames[f].channels[c].data\<close>, as an offset into the payload.\<close>

definition channel_data :: "arena \<Rightarrow> nat \<Rightarrow> nat \<Rightarrow> nat" where
  "channel_data a f c = channel_descs a ! (frame_descs a ! f + c)"

text \<open>
  \<open>total_channel_data_size = num_frames * num_channels * frame_size\<close> of \<open>decode_S\<close>,
  a \<open>size_t\<close>.
\<close>

definition total_channel_data_size :: "'a header_scheme \<Rightarrow> nat" where
  "total_channel_data_size v =
     (unat (num_frames v) * unat (channels v) * channel_size v) mod 2 ^ 64"

text \<open>
  The two loops of \<open>decode_S\<close> that fill the descriptor regions: they assign every
  \<open>Frame\<close> and every \<open>Channel\<close> of the block once, frame \<open>frame_idx\<close> pointing at
  \<open>channels_block + frame_idx * num_channels * sizeof(Channel)\<close> and its channel
  \<open>channel_idx\<close> at
  \<open>data_block + frame_idx * num_channels * frame_size + channel_idx * frame_size\<close>.
\<close>

definition build_frame_descs :: "'a header_scheme \<Rightarrow> nat list" where
  "build_frame_descs v = map (\<lambda>frame_idx. frame_idx * unat (channels v)) [0..<nframes v]"

definition build_channel_descs :: "'a header_scheme \<Rightarrow> nat list" where
  "build_channel_descs v =
     concat (map (\<lambda>frame_idx.
        map (\<lambda>channel_idx.
               frame_idx * unat (channels v) * channel_size v + channel_idx * channel_size v)
          [0..<unat (channels v)])
       [0..<nframes v])"

section \<open>Arena layout: decode_S and encode_S\<close>

text \<open>
  \<open>decode_S file svideo_alloc block_alloc\<close>, with the arguments of \<open>decode\<close>; the
  second flag is the one allocation of the whole block.
\<close>

definition decode_S :: "byte list option \<Rightarrow> bool \<Rightarrow> bool \<Rightarrow> string + SVideo" where
  "decode_S file svideo_alloc block_alloc =
     (case file of
        None \<Rightarrow> Inl ''Error opening file''
      | Some s \<Rightarrow>
          if \<not> svideo_alloc then Inl ''Error allocating memory for SVideo''
          else (case read_header s of
            None \<Rightarrow> Inl ''Error reading video header''
          | Some (h, rest) \<Rightarrow>
              if \<not> block_alloc then Inl ''Error allocating contiguous memory block''
              else (case fread (total_channel_data_size h) rest of
                None \<Rightarrow> Inl ''Error reading channel data''
              | Some (d, _) \<Rightarrow>
                  Inr \<lparr>num_frames = num_frames h, channels = channels h,
                       height = height h, width = width h,
                       frames = Some \<lparr>frame_descs = build_frame_descs h,
                                      channel_descs = build_channel_descs h,
                                      payload = d\<rparr>\<rparr>)))"

text \<open>
  The payload loop of \<open>encode_S\<close>: one \<open>fwrite(channel->data, 1, channel_size, file)\<close>
  for each channel of each frame, in that order, stopping at the first that fails.
\<close>

definition write_channel :: "SVideo \<Rightarrow> arena \<Rightarrow> nat \<times> nat \<Rightarrow> out_file option \<Rightarrow> out_file option" where
  "write_channel v a fc file =
     (case file of None \<Rightarrow> None
      | Some f \<Rightarrow>
          fwrite (take (channel_size v) (drop (channel_data a (fst fc) (snd fc)) (payload a))) f)"

definition frame_channel_pairs :: "'a header_scheme \<Rightarrow> (nat \<times> nat) list" where
  "frame_channel_pairs v =
     concat (map (\<lambda>frame_idx. map (\<lambda>channel_idx. (frame_idx, channel_idx))
        [0..<unat (channels v)]) [0..<nframes v])"

text \<open>
  \<open>encode_S filename dev video\<close>, with the arguments of \<open>encode\<close>. With
  \<open>video->frames\<close> null the loop reads through the null pointer as soon as it has a
  channel to write; that run has no result (\<open>None\<close>).
\<close>

definition encode_S :: "string option \<Rightarrow> nat option \<Rightarrow> SVideo option \<Rightarrow> (string + byte list) option" where
  "encode_S filename dev video =
     (case (filename, video) of
        (None, _) \<Rightarrow> Some (Inl ''Invalid input to encode function.'')
      | (_, None) \<Rightarrow> Some (Inl ''Invalid input to encode function.'')
      | (Some _, Some v) \<Rightarrow>
         (case dev of
            None \<Rightarrow> Some (Inl ''Error opening file for writing'')
          | Some r \<Rightarrow>
             (case write_header v \<lparr>written = [], room = r\<rparr> of
                None \<Rightarrow> Some (Inl ''Error writing video header'')
              | Some f1 \<Rightarrow>
                 (case frames v of
                    None \<Rightarrow> if frame_channel_pairs v = [] then Some (Inr (written f1)) else None
                  | Some a \<Rightarrow>
                     (case fold (write_channel v a) (frame_channel_pairs v) (Some f1) of
                        None \<Rightarrow> Some (Inl ''Error writing Channel data'')
                      | Some f2 \<Rightarrow> Some (Inr (written f2)))))))"

section \<open>Flat layout: reverse\<close>

text \<open>
  \<open>memcpy\<close> on a buffer kept as a list: \<open>bytes_at mem p n\<close> are the \<open>n\<close> bytes read at
  offset \<open>p\<close>, \<open>memcpy_to mem p src\<close> is the buffer after \<open>src\<close> was copied to
  offset \<open>p\<close>.
\<close>

definition bytes_at :: "'a list \<Rightarrow> nat \<Rightarrow> nat \<Rightarrow> 'a list" where
  "bytes_at mem p n = take n (drop p mem)"

definition memcpy_to :: "'a list \<Rightarrow> nat \<Rightarrow> 'a list \<Rightarrow> 'a list" where
  "memcpy_to mem p src = take p mem @ src @ drop (p + length src) mem"

text \<open>
  The body of the loop of \<open>reverse\<close>, three \<open>memcpy\<close> of \<open>frame_size\<close> bytes through
  \<open>temp\<close>, for \<open>frame1 = data + i * frame_size\<close> and
  \<open>frame2 = data + (num_frames - 1 - i) * frame_size\<close>.
\<close>

definition swap_frames :: "nat \<Rightarrow> nat \<Rightarrow> nat \<Rightarrow> byte list \<Rightarrow> byte list" where
  "swap_frames fsz n i d =
     (let frame1 = i * fsz;
          frame2 = (n - 1 - i) * fsz;
          temp = bytes_at d frame1 fsz;
          d1 = memcpy_to d frame1 (bytes_at d frame2 fsz);
          d2 = memcpy_to d1 frame2 temp
      in d2)"

text \<open>
  The bound \<open>video->num_frames / 2\<close> of the loops of \<open>reverse\<close> and \<open>reverse_S\<close>: C
  division of a \<open>long\<close>, which truncates towards zero.
\<close>

definition half_frames :: "'a header_scheme \<Rightarrow> nat" where
  "half_frames v = nat (sint (num_frames v) sdiv 2)"

text \<open>
  \<open>reverse temp_alloc video\<close>; \<open>temp_alloc\<close> says whether \<open>malloc(frame_size)\<close>
  returns memory for \<open>temp\<close>.
\<close>

definition reverse :: "bool \<Rightarrow> Video option \<Rightarrow> Video run" where
  "reverse temp_alloc video =
     (case video of
        None \<Rightarrow> Reported ''Invalid input to reverse function.'' video
      | Some v \<Rightarrow>
         (case data v of
            None \<Rightarrow> Reported ''Invalid input to reverse function.'' video
          | Some d \<Rightarrow>
              if \<not> temp_alloc
              then Reported ''Error allocating memory for reverse function'' video
              else Done (Some (v\<lparr>data := Some
                     (fold (swap_frames (frame_size v) (nframes v)) [0..<half_frames v] d)\<rparr>))))"

section \<open>Arena layout: reverse_S and swap_channels_S\<close>

text \<open>
  The body of the loop of \<open>reverse_S\<close>: the records \<open>frames[i]\<close> and
  \<open>frames[num_frames - 1 - i]\<close> change places through \<open>temp\<close>.
\<close>

definition swap_frame_descs :: "nat \<Rightarrow> nat \<Rightarrow> nat list \<Rightarrow> nat list" where
  "swap_frame_descs n i fd =
     (let temp = fd ! i;
          fd1 = fd[i := fd ! (n - 1 - i)];
          fd2 = fd1[n - 1 - i := temp]
      in fd2)"

definition reverse_S :: "SVideo option \<Rightarrow> SVideo run" where
  "reverse_S video =
     (case video of
        None \<Rightarrow> Reported ''Invalid input to reverse_S function.'' video
      | Some v \<Rightarrow>
         (case frames v of
            None \<Rightarrow> Reported ''Invalid input to reverse_S function.'' video
          | Some a \<Rightarrow>
              Done (Some (v\<lparr>frames := Some (a\<lparr>frame_descs :=
                fold (swap_frame_descs (nframes v)) [0..<half_frames v] (frame_descs a)\<rparr>)\<rparr>))))"

text \<open>
  The body of the loop of \<open>swap_channels_S\<close>: the records
  \<open>frames[frame].channels[channel1]\<close> and \<open>frames[frame].channels[channel2]\<close> change
  places through \<open>temp\<close>.
\<close>

definition swap_channel_descs :: "nat list \<Rightarrow> nat \<Rightarrow> nat \<Rightarrow> nat \<Rightarrow> nat list \<Rightarrow> nat list" where
  "swap_channel_descs fd channel1 channel2 frame cd =
     (let temp = cd ! (fd ! frame + channel1);
          cd1 = cd[fd ! frame + channel1 := cd ! (fd ! frame + channel2)];
          cd2 = cd1[fd ! frame + channel2 := temp]
      in cd2)"

text \<open>
  \<open>swap_channels_S\<close> reads \<open>video->channels\<close> in its first test and compares
  \<open>video\<close> with null in its second.
\<close>

definition swap_channels_S :: "SVideo option \<Rightarrow> byte \<Rightarrow> byte \<Rightarrow> SVideo run" where
  "swap_channels_S video channel1 channel2 =
     (case video of
        None \<Rightarrow> Null_dereference
      | Some v \<Rightarrow>
          if channel1 \<ge> channels v \<or> channel2 \<ge> channels v
          then Reported ''Channel indices out of bounds.'' video
          else (case frames v of
            None \<Rightarrow> Reported ''Invalid input to swap_channel_S function.'' video
          | Some a \<Rightarrow>
              Done (Some (v\<lparr>frames := Some (a\<lparr>channel_descs :=
                fold (swap_channel_descs (frame_descs a) (unat channel1) (unat channel2))
                  [0..<nframes v] (channel_descs a)\<rparr>)\<rparr>))))"

section \<open>Flat layout: clip_channel\<close>

text \<open>
  The inner loop of \<open>clip_channel\<close>:
  \<open>for (i = 0; i < channel_size; i++) channel_data[i] = CLAMP(channel_data[i], min_val, max_val)\<close>
  with \<open>channel_data = &video->data[channel_offset]\<close>.
\<close>

definition clip_range :: "byte \<Rightarrow> byte \<Rightarrow> nat \<Rightarrow> nat \<Rightarrow> byte list \<Rightarrow> byte list" where
  "clip_range min_val max_val channel_offset n d =
     fold (\<lambda>i d. d[channel_offset + i := CLAMP (d ! (channel_offset + i)) min_val max_val])
       [0..<n] d"

definition clip_channel :: "Video option \<Rightarrow> byte \<Rightarrow> byte \<Rightarrow> byte \<Rightarrow> Video run" where
  "clip_channel video channel min_val max_val =
     (case video of
        None \<Rightarrow> Reported ''Invalid input to clip_channel function.'' video
      | Some v \<Rightarrow>
         (case data v of
            None \<Rightarrow> Reported ''Invalid input to clip_channel function.'' video
          | Some d \<Rightarrow>
              if channel \<ge> channels v then Reported ''Channel index out of bounds.'' video
              else
                Done (Some (v\<lparr>data := Some
                  (fold (\<lambda>frame_idx d.
                      clip_range min_val max_val
                        (frame_idx * frame_size v + unat channel * channel_size v)
                        (channel_size v) d)
                    [0..<nframes v] d)\<rparr>))))"

section \<open>Arena layout: clip_channel_S\<close>

text \<open>
  A \<open>__m256i\<close> used as 32 unsigned 8-bit lanes, and the five intrinsics of
  \<open>clip_channel_S\<close>: broadcast, unaligned load of 32 bytes, lane-wise unsigned maximum
  and minimum, unaligned store of 32 bytes.
\<close>

type_synonym m256i = "byte list"

definition mm256_set1_epi8 :: "byte \<Rightarrow> m256i" where
  "mm256_set1_epi8 b = replicate 32 b"

definition mm256_loadu_si256 :: "byte list \<Rightarrow> nat \<Rightarrow> m256i" where
  "mm256_loadu_si256 mem p = bytes_at mem p 32"

definition mm256_max_epu8 :: "m256i \<Rightarrow> m256i \<Rightarrow> m256i" where
  "mm256_max_epu8 a b = map2 max a b"

definition mm256_min_epu8 :: "m256i \<Rightarrow> m256i \<Rightarrow> m256i" where
  "mm256_min_epu8 a b = map2 min a b"

definition mm256_storeu_si256 :: "byte list \<Rightarrow> nat \<Rightarrow> m256i \<Rightarrow> byte list" where
  "mm256_storeu_si256 mem p v = memcpy_to mem p v"

text \<open>
  The vector loop \<open>for (; i + 31 < channel_size; i += 32)\<close> on the channel at offset
  \<open>data_p\<close> with \<open>n\<close> samples; it returns the \<open>i\<close> it stops at and the memory.
\<close>

function clip_batches :: "m256i \<Rightarrow> m256i \<Rightarrow> nat \<Rightarrow> nat \<Rightarrow> nat \<Rightarrow> byte list \<Rightarrow> nat \<times> byte list" where
  "clip_batches min_val_vec max_val_vec data_p n i mem =
     (if i + 31 < n
      then
        let pixels = mm256_loadu_si256 mem (data_p + i);
            pixels' = mm256_min_epu8 (mm256_max_epu8 pixels min_val_vec) max_val_vec
        in clip_batches min_val_vec max_val_vec data_p n (i + 32)
             (mm256_storeu_si256 mem (data_p + i) pixels')
      else (i, mem))"
  by pat_completeness auto
termination
  by (relation "measure (\<lambda>(lo, hi, p, n, i, mem). n - i)") auto

declare clip_batches.simps [simp del]

text \<open>The scalar loop \<open>for (; i < channel_size; i++) data[i] = CLAMP(data[i], ...)\<close>.\<close>

definition clip_tail :: "byte \<Rightarrow> byte \<Rightarrow> nat \<Rightarrow> nat \<Rightarrow> nat \<Rightarrow> byte list \<Rightarrow> byte list" where
  "clip_tail min_value max_value data_p n i mem =
     fold (\<lambda>j mem. mem[data_p + j := CLAMP (mem ! (data_p + j)) min_value max_value])
       [i..<n] mem"

text \<open>One iteration of the loop over the frames.\<close>

definition clip_frame_S :: "SVideo \<Rightarrow> arena \<Rightarrow> nat \<Rightarrow> byte \<Rightarrow> byte \<Rightarrow> nat \<Rightarrow> byte list \<Rightarrow> byte list" where
  "clip_frame_S v a channel min_value max_value frame_idx mem =
     (let data_p = channel_data a frame_idx channel;
          (i, mem1) = clip_batches (mm256_set1_epi8 min_value) (mm256_set1_epi8 max_value)
                        data_p (channel_size v) 0 mem
      in clip_tail min_value max_value data_p (channel_size v) i mem1)"

text \<open>
  \<open>clip_channel_S\<close> does not test \<open>video->frames\<close>: with a null \<open>frames\<close> the first
  iteration reads through it.
\<close>

definition clip_channel_S :: "SVideo option \<Rightarrow> byte \<Rightarrow> byte \<Rightarrow> byte \<Rightarrow> SVideo run" where
  "clip_channel_S video channel min_value max_value =
     (case video of
        None \<Rightarrow> Reported ''Invalid input to clip_channel_SIMD_SVideo.'' video
      | Some v \<Rightarrow>
          if channel \<ge> channels v
          then Reported ''Invalid input to clip_channel_SIMD_SVideo.'' video
          else (case frames v of
            None \<Rightarrow> if nframes v = 0 then Done video else Null_dereference
          | Some a \<Rightarrow>
              Done (Some (v\<lparr>frames := Some (a\<lparr>payload :=
                fold (clip_frame_S v a (unat channel) min_value max_value)
                  [0..<nframes v] (payload a)\<rparr>)\<rparr>))))"

text \<open>
  The scalar rule of the specification for the same call: every sample of channel
  \<open>channel\<close> of every frame goes through \<open>CLAMP\<close>, one at a time, with no vector step.
\<close>

definition clip_scalar_rule :: "SVideo \<Rightarrow> arena \<Rightarrow> nat \<Rightarrow> byte \<Rightarrow> byte \<Rightarrow> byte list" where
  "clip_scalar_rule v a channel lo hi =
     fold (\<lambda>frame_idx mem.
        clip_range lo hi (channel_data a frame_idx channel) (channel_size v) mem)
       [0..<nframes v] (payload a)"

section \<open>Arena layout: scale_channel_S and scale_channel_S_wasm\<close>

text \<open>
  A \<open>float\<close> is kept as the rational number it stands for. \<open>data[i] * scale_factor\<close>
  converts the sample to \<open>float\<close>, which is exact, and multiplies; the product is taken
  here without the rounding to 24 significant bits, so it is the value the program
  computes whenever that value is a \<open>float\<close> (as for the factors \<open>1.0\<close> and \<open>2.0\<close>).
\<close>

type_synonym cfloat = rat

definition float_of_uchar :: "byte \<Rightarrow> cfloat" where
  "float_of_uchar v = of_nat (unat v)"

text \<open>
  The conversion of a \<open>float\<close> to \<open>unsigned char\<close> discards the fraction. ISO C
  defines it when the result is in \<open>0..255\<close>. Outside that range the code generated for
  x86-64 and for wasm32 converts to a 32-bit integer and keeps the low eight bits, which
  is the value written here.
\<close>

definition uchar_of_float :: "cfloat \<Rightarrow> byte" where
  "uchar_of_float x = of_int (if 0 \<le> x then \<lfloor>x\<rfloor> else \<lceil>x\<rceil>)"

text \<open>
  The body shared by the loops of \<open>scale_channel\<close> and \<open>scale_channel_S\<close>:
  \<open>scaled_value = data[i] * scale_factor; data[i] = CLAMP(scaled_value, 0.0f, 255.0f)\<close>,
  the clamp first and the conversion to \<open>unsigned char\<close> after it.
\<close>

definition scale_sample :: "cfloat \<Rightarrow> byte \<Rightarrow> byte" where
  "scale_sample scale_factor v =
     (let scaled_value = float_of_uchar v * scale_factor
      in uchar_of_float (CLAMP scaled_value 0 255))"

text \<open>
  The body of the loop of \<open>scale_channel_S_wasm\<close>:
  \<open>channel_data[i] = CLAMP((unsigned char)scaled_value, 0, 255)\<close>, the conversion first and
  the clamp after it.
\<close>

definition scale_sample_wasm :: "cfloat \<Rightarrow> byte \<Rightarrow> byte" where
  "scale_sample_wasm scale_factor v =
     (let scaled_value = float_of_uchar v * scale_factor
      in CLAMP (uchar_of_float scaled_value) 0 255)"

text \<open>
  The loop \<open>for (; i + 31 < channel_size; i += 32)\<close> of \<open>scale_channel_S\<close> with its
  inner loop over \<open>j < 32\<close>; \<open>__builtin_prefetch\<close> changes no value.
\<close>

function scale_batches :: "cfloat \<Rightarrow> nat \<Rightarrow> nat \<Rightarrow> nat \<Rightarrow> byte list \<Rightarrow> nat \<times> byte list" where
  "scale_batches scale_factor data_p n i mem =
     (if i + 31 < n
      then scale_batches scale_factor data_p n (i + 32)
             (fold (\<lambda>j mem. mem[data_p + (i + j) :=
                       scale_sample scale_factor (mem ! (data_p + (i + j)))]) [0..<32] mem)
      else (i, mem))"
  by pat_completeness auto
termination
  by (relation "measure (\<lambda>(f, p, n, i, mem). n - i)") auto

definition scale_frame_S :: "SVideo \<Rightarrow> arena \<Rightarrow> nat \<Rightarrow> cfloat \<Rightarrow> nat \<Rightarrow> byte list \<Rightarrow> byte list" where
  "scale_frame_S v a channel scale_factor frame_idx mem =
     (let data_p = channel_data a frame_idx channel;
          (i, mem1) = scale_batches scale_factor data_p (channel_size v) 0 mem
      in fold (\<lambda>j mem. mem[data_p + j := scale_sample scale_factor (mem ! (data_p + j))])
           [i..<channel_size v] mem1)"

definition scale_channel_S :: "SVideo option \<Rightarrow> byte \<Rightarrow> cfloat \<Rightarrow> SVideo run" where
  "scale_channel_S video channel scale_factor =
     (case video of
        None \<Rightarrow> Reported ''Invalid input to scale_channel_S_S function.'' video
      | Some v \<Rightarrow>
          if channel \<ge> channels v
          then Reported ''Invalid input to scale_channel_S_S function.'' video
          else (case frames v of
            None \<Rightarrow> if nframes v = 0 then Done video else Null_dereference
          | Some a \<Rightarrow>
              Done (Some (v\<lparr>frames := Some (a\<lparr>payload :=
                fold (scale_frame_S v a (unat channel) scale_factor)
                  [0..<nframes v] (payload a)\<rparr>)\<rparr>))))"

text \<open>
  The chunked loop of \<open>scale_channel_S_wasm\<close>, \<open>CHUNK_SIZE = 25\<close> frames at a time.
\<close>

function scale_chunks_wasm :: "SVideo \<Rightarrow> arena \<Rightarrow> nat \<Rightarrow> cfloat \<Rightarrow> nat \<Rightarrow> byte list \<Rightarrow> byte list" where
  "scale_chunks_wasm v a channel scale_factor chunk_start mem =
     (if chunk_start < nframes v
      then
        let chunk_end = (if chunk_start + 25 > nframes v then nframes v else chunk_start + 25)
        in scale_chunks_wasm v a channel scale_factor (chunk_start + 25)
             (fold (\<lambda>frame_idx mem.
                 fold (\<lambda>i mem. mem[channel_data a frame_idx channel + i :=
                          scale_sample_wasm scale_factor
                            (mem ! (channel_data a frame_idx channel + i))])
                   [0..<channel_size v] mem)
               [chunk_start..<chunk_end] mem)
      else mem)"
  by pat_completeness auto
termination
  by (relation "measure (\<lambda>(v, a, c, f, chunk_start, mem). nframes v - chunk_start)") auto

text \<open>
  \<open>scale_channel_S_wasm\<close> returns an \<open>int\<close> and prints nothing: the result is the
  value returned and the store after the call, or \<open>None\<close> when the loop read through a
  null \<open>frames\<close>.
\<close>

definition scale_channel_S_wasm :: "SVideo option \<Rightarrow> byte \<Rightarrow> cfloat \<Rightarrow> (int \<times> SVideo option) option" where
  "scale_channel_S_wasm video channel scale_factor =
     (case video of
        None \<Rightarrow> Some (- 1, video)
      | Some v \<Rightarrow>
          if channel \<ge> channels v then Some (- 1, video)
          else (case frames v of
            None \<Rightarrow> if nframes v = 0 then Some (0, video) else None
          | Some a \<Rightarrow>
              Some (0, Some (v\<lparr>frames := Some (a\<lparr>payload :=
                scale_chunks_wasm v a (unat channel) scale_factor 0 (payload a)\<rparr>)\<rparr>))))"

section \<open>Streaming decode adapter: decode_standard_video\<close>

text \<open>
  The adapter is followed at the level of addresses. The block obtained from
  \<open>malloc\<close> and moved by \<open>realloc\<close> is its base address and its cells, one per byte; a
  cell is \<open>None\<close> until the program has written it. An access outside the block has no
  value (\<open>None\<close>).
\<close>

type_synonym addr = nat

record block =
  base :: addr
  cells :: "byte option list"

definition in_block :: "block \<Rightarrow> addr \<Rightarrow> nat \<Rightarrow> bool" where
  "in_block b p n = (base b \<le> p \<and> p + n \<le> base b + length (cells b))"

definition store_byte :: "addr \<Rightarrow> byte \<Rightarrow> block \<Rightarrow> block option" where
  "store_byte p v b =
     (if in_block b p 1 then Some (b\<lparr>cells := (cells b)[p - base b := Some v]\<rparr>) else None)"

text \<open>A pointer is eight bytes, least significant first; so are \<open>Frame\<close> and \<open>Channel\<close>.\<close>

definition sizeof_Frame :: nat where
  "sizeof_Frame = 8"

definition sizeof_Channel :: nat where
  "sizeof_Channel = 8"

definition pointer_bytes :: "addr \<Rightarrow> byte list" where
  "pointer_bytes p = map (\<lambda>k. of_nat (p div 256 ^ k)) [0..<8]"

definition bytes_pointer :: "byte list \<Rightarrow> addr" where
  "bytes_pointer bs = horner_sum unat 256 bs"

definition store_pointer :: "addr \<Rightarrow> addr \<Rightarrow> block \<Rightarrow> block option" where
  "store_pointer p v b =
     (if in_block b p 8
      then Some (b\<lparr>cells := memcpy_to (cells b) (p - base b) (map Some (pointer_bytes v))\<rparr>)
      else None)"

definition load_pointer :: "addr \<Rightarrow> block \<Rightarrow> addr option" where
  "load_pointer p b =
     (if in_block b p 8 \<and> list_all (\<lambda>c. c \<noteq> None) (bytes_at (cells b) (p - base b) 8)
      then Some (bytes_pointer (map the (bytes_at (cells b) (p - base b) 8)))
      else None)"

text \<open>
  \<open>realloc(memory_block, new_size)\<close> when it returns \<open>new_base\<close>: the old contents up
  to the smaller of the two sizes, the old block released.
\<close>

definition realloc_block :: "block \<Rightarrow> nat \<Rightarrow> addr \<Rightarrow> block" where
  "realloc_block b new_size new_base =
     \<lparr>base = new_base,
      cells = take new_size (cells b) @ replicate (new_size - length (cells b)) None\<rparr>"

text \<open>
  \<open>SVideo\<close> with \<open>frames\<close> as an address, and the local variables of
  \<open>decode_standard_video\<close> that its loop updates. \<open>allocator\<close> holds the answers of the
  calls of \<open>realloc\<close> still to come (\<open>None\<close>: no memory).
\<close>

record raw_SVideo = header +
  frames_ptr :: addr

record decoder =
  memory_block :: block
  channels_block :: addr
  data_block :: addr
  initial_capacity :: nat
  frame_count :: nat
  allocator :: "addr option list"

text \<open>
  The test \<open>if (frame_count >= (long)initial_capacity)\<close> and its body. After a
  successful \<open>realloc\<close> the code assigns \<open>memory_block\<close>, \<open>svideo->frames\<close>,
  \<open>channels_block\<close> and \<open>data_block\<close>, and nothing else. A failed \<open>realloc\<close> leaves
  the block where it was and the function goes to \<open>cleanup\<close> (\<open>Inl\<close>, with the message
  printed).
\<close>

definition grow :: "nat \<Rightarrow> decoder \<Rightarrow> string + decoder" where
  "grow fsz s =
     (if frame_count s \<ge> initial_capacity s
      then
        let cap = initial_capacity s * 2;
            new_total_size = cap * sizeof_Frame + cap * 3 * sizeof_Channel + cap * 3 * fsz
        in (case allocator s of
              [] \<Rightarrow> Inl ''Error: Could not reallocate memory''
            | None # _ \<Rightarrow> Inl ''Error: Could not reallocate memory''
            | Some new_memory_block # rest \<Rightarrow>
                Inr (s\<lparr>memory_block :=
                         realloc_block (memory_block s) new_total_size new_memory_block,
                       channels_block := new_memory_block + cap * sizeof_Frame,
                       data_block := new_memory_block + cap * sizeof_Frame
                                       + cap * 3 * sizeof_Channel,
                       initial_capacity := cap,
                       allocator := rest\<rparr>))
      else Inr s)"

text \<open>
  The two loops over \<open>y\<close> and \<open>x\<close> for channel \<open>c\<close>:
  \<open>current_frame->channels[c].data[pixel_idx] = frame_rgb->data[0][rgb_idx]\<close>, each
  pointer read from memory.
\<close>

definition copy_pixel :: "byte list \<Rightarrow> nat \<Rightarrow> nat \<Rightarrow> addr \<Rightarrow> nat \<Rightarrow> nat \<times> nat \<Rightarrow> block option \<Rightarrow> block option" where
  "copy_pixel rgb linesize w current_frame c yx mb =
     do {
       b \<leftarrow> mb;
       chans \<leftarrow> load_pointer current_frame b;
       d \<leftarrow> load_pointer (chans + c * sizeof_Channel) b;
       let pixel_idx = fst yx * w + snd yx;
       let rgb_idx = fst yx * linesize + snd yx * 3 + c;
       store_byte (d + pixel_idx) (rgb ! rgb_idx) b
     }"

text \<open>
  One iteration of \<open>for (c = 0; c < svideo->channels; c++)\<close>: the \<open>Channel\<close> is set to
  \<open>data_block + (frame_count * svideo->channels + c) * frame_size\<close>, then filled.
\<close>

definition copy_channel :: "byte list \<Rightarrow> nat \<Rightarrow> nat \<Rightarrow> nat \<Rightarrow> decoder \<Rightarrow> addr \<Rightarrow> nat \<Rightarrow> block option \<Rightarrow> block option" where
  "copy_channel rgb linesize h w s current_frame c mb =
     do {
       b \<leftarrow> mb;
       chans \<leftarrow> load_pointer current_frame b;
       b1 \<leftarrow> store_pointer (chans + c * sizeof_Channel)
               (data_block s + (frame_count s * 3 + c) * (h * w)) b;
       fold (copy_pixel rgb linesize w current_frame c)
         (concat (map (\<lambda>y. map (\<lambda>x. (y, x)) [0..<w]) [0..<h])) (Some b1)
     }"

text \<open>
  What the loop does with one decoded frame, already converted to RGB: grow when
  needed, set \<open>current_frame->channels\<close> to
  \<open>channels_block + frame_count * svideo->channels * sizeof(Channel)\<close>, copy the three
  channels, count the frame.
\<close>

datatype loop_end = Finished decoder | Aborted decoder | Wild

definition on_frame :: "nat \<Rightarrow> nat \<Rightarrow> nat \<Rightarrow> byte list \<Rightarrow> decoder \<Rightarrow> loop_end" where
  "on_frame linesize h w rgb s =
     (case grow (h * w) s of
        Inl _ \<Rightarrow> Aborted s
      | Inr s1 \<Rightarrow>
          let current_frame = base (memory_block s1) + frame_count s1 * sizeof_Frame
          in (case do {
                     b \<leftarrow> store_pointer current_frame
                            (channels_block s1 + frame_count s1 * 3 * sizeof_Channel)
                            (memory_block s1);
                     fold (copy_channel rgb linesize h w s1 current_frame) [0..<3] (Some b)
                   } of
                None \<Rightarrow> Wild
              | Some b \<Rightarrow> Finished (s1\<lparr>memory_block := b, frame_count := frame_count s1 + 1\<rparr>)))"

text \<open>
  What the external decoder hands over. A packet belongs to another stream, or is
  refused by \<open>avcodec_send_packet\<close>, or yields the frames that
  \<open>avcodec_receive_frame\<close> returns before it answers \<open>EAGAIN\<close> or \<open>AVERROR_EOF\<close>
  (\<open>True\<close>) or an error (\<open>False\<close>).
\<close>

datatype packet = Other_stream | Send_error | Video_frames "byte list list" bool

text \<open>The inner loop \<open>while (ret >= 0)\<close> over the frames of one packet.\<close>

fun receive_frames :: "nat \<Rightarrow> nat \<Rightarrow> nat \<Rightarrow> byte list list \<Rightarrow> decoder \<Rightarrow> loop_end" where
  "receive_frames linesize h w [] s = Finished s"
| "receive_frames linesize h w (rgb # rgbs) s =
     (case on_frame linesize h w rgb s of
        Finished s1 \<Rightarrow> receive_frames linesize h w rgbs s1
      | Aborted s1 \<Rightarrow> Aborted s1
      | Wild \<Rightarrow> Wild)"

text \<open>
  The outer loop \<open>while (av_read_frame(fmt_ctx, packet) >= 0)\<close>. A refused packet
  leaves the loop by \<open>break\<close>; a decoding error and a failed \<open>realloc\<close> leave it by
  \<open>goto cleanup\<close>.
\<close>

fun read_packets :: "nat \<Rightarrow> nat \<Rightarrow> nat \<Rightarrow> packet list \<Rightarrow> decoder \<Rightarrow> loop_end" where
  "read_packets linesize h w [] s = Finished s"
| "read_packets linesize h w (Other_stream # ps) s = read_packets linesize h w ps s"
| "read_packets linesize h w (Send_error # ps) s = Finished s"
| "read_packets linesize h w (Video_frames fs drained # ps) s =
     (case receive_frames linesize h w fs s of
        Finished s1 \<Rightarrow> if drained then read_packets linesize h w ps s1 else Aborted s1
      | Aborted s1 \<Rightarrow> Aborted s1
      | Wild \<Rightarrow> Wild)"

text \<open>
  The source as the adapter meets it: whether every step up to \<open>sws_getContext\<close>
  succeeds, the stream's \<open>nb_frames\<close>, the estimate \<open>(long)(duration * fps)\<close>
  (\<open>None\<close> when the duration is \<open>AV_NOPTS_VALUE\<close>), the frame geometry, the answers of
  the allocator (\<open>malloc(sizeof(SVideo))\<close>, then \<open>malloc(total_size)\<close> followed by the
  calls of \<open>realloc\<close>, then \<open>av_packet_alloc\<close>), and the packets.
\<close>

record source =
  opened :: bool
  nb_frames :: int
  estimate :: "int option"
  ctx_width :: int
  ctx_height :: int
  rgb_linesize :: nat
  svideo_alloc :: bool
  block_allocs :: "addr option list"
  packet_alloc :: bool
  packets :: "packet list"

text \<open>
  The result: the pointer returned (\<open>None\<close> for \<open>NULL\<close>) and the block that is still
  allocated when the function returns, or \<open>Wild_access\<close> when a pointer read from
  memory led outside the block.
\<close>

datatype decoded = Returned "raw_SVideo option" "block option" | Wild_access

definition decode_standard_video :: "source \<Rightarrow> decoded" where
  "decode_standard_video src =
     (if \<not> opened src then Returned None None
      else
        let num_frames0 = (if nb_frames src = 0
                           then (case estimate src of Some e \<Rightarrow> e | None \<Rightarrow> 1000)
                           else nb_frames src)
        in if \<not> svideo_alloc src then Returned None None
        else
          let h = (of_int (ctx_height src) :: byte);
              w = (of_int (ctx_width src) :: byte);
              fsz = unat h * unat w;
              cap = nat (if num_frames0 > 0 then num_frames0 else 1000);
              total = cap * sizeof_Frame + cap * 3 * sizeof_Channel + cap * 3 * fsz
          in (case block_allocs src of
                [] \<Rightarrow> Returned None None
              | None # _ \<Rightarrow> Returned None None
              | Some mb # rest \<Rightarrow>
                  let s0 = \<lparr>memory_block = \<lparr>base = mb, cells = replicate total None\<rparr>,
                            channels_block = mb + cap * sizeof_Frame,
                            data_block = mb + cap * sizeof_Frame + cap * 3 * sizeof_Channel,
                            initial_capacity = cap, frame_count = 0, allocator = rest\<rparr>;
                      svideo = \<lparr>num_frames = 0, channels = 3, height = h, width = w,
                                frames_ptr = mb\<rparr>
                  in if \<not> packet_alloc src
                     then Returned (Some svideo) (Some (memory_block s0))
                     else (case read_packets (rgb_linesize src) (unat h) (unat w)
                                  (packets src) s0 of
                        Wild \<Rightarrow> Wild_access
                      | Aborted s \<Rightarrow>
                          Returned (Some (svideo\<lparr>frames_ptr := base (memory_block s)\<rparr>))
                            (Some (memory_block s))
                      | Finished s \<Rightarrow>
                          Returned (Some (svideo\<lparr>num_frames := of_nat (frame_count s),
                                                 frames_ptr := base (memory_block s)\<rparr>))
                            (Some (memory_block s)))))"

text \<open>
  Every descriptor reference of the returned store resolves into the block: each
  \<open>frames[f].channels\<close> can be read and points at \<open>channels\<close> records inside the
  block, and each \<open>channels[c].data\<close> points at \<open>height * width\<close> bytes inside it.
\<close>

definition descriptors_resolve :: "raw_SVideo \<Rightarrow> block \<Rightarrow> bool" where
  "descriptors_resolve sv b =
     list_all (\<lambda>f.
        case load_pointer (frames_ptr sv + f * sizeof_Frame) b of
          None \<Rightarrow> False
        | Some chans \<Rightarrow>
            list_all (\<lambda>c.
               case load_pointer (chans + c * sizeof_Channel) b of
                 None \<Rightarrow> False
               | Some d \<Rightarrow> in_block b d (channel_size sv))
              [0..<unat (channels sv)])
       [0..<nframes sv]"

section \<open>Predicates used in the statements\<close>

text \<open>The header that the first eleven bytes of a file stand for.\<close>

definition header_of :: "byte list \<Rightarrow> header" where
  "header_of s = \<lparr>num_frames = bytes_long (take 8 s), channels = s ! 8,
                  height = s ! 9, width = s ! 10\<rparr>"

text \<open>
  What the two vector operations of \<open>clip_channel_S\<close> do to one lane:
  \<open>min(max(x, lo), hi)\<close>.
\<close>

definition lanes_clip :: "byte \<Rightarrow> byte \<Rightarrow> byte \<Rightarrow> byte" where
  "lanes_clip lo hi x = min (max x lo) hi"

text \<open>The eleven bytes that the four header writes produce.\<close>

definition header_bytes :: "'a header_scheme \<Rightarrow> byte list" where
  "header_bytes v = long_bytes (num_frames v) @ [channels v, height v, width v]"

text \<open>
  The \<open>channel_size\<close> bytes that the descriptor of channel \<open>c\<close> of frame \<open>f\<close> points
  at, and the payload of an arena store as its descriptors present it: frame by frame,
  channel by channel.
\<close>

definition channel_bytes :: "'a header_scheme \<Rightarrow> arena \<Rightarrow> nat \<times> nat \<Rightarrow> byte list" where
  "channel_bytes v a fc = bytes_at (payload a) (channel_data a (fst fc) (snd fc)) (channel_size v)"

definition logical_payload :: "'a header_scheme \<Rightarrow> arena \<Rightarrow> byte list" where
  "logical_payload v a = concat (map (channel_bytes v a) (frame_channel_pairs v))"

text \<open>Every channel of every frame lies in the payload.\<close>

definition channels_in_payload :: "'a header_scheme \<Rightarrow> arena \<Rightarrow> bool" where
  "channels_in_payload v a =
     list_all (\<lambda>fc. channel_data a (fst fc) (snd fc) + channel_size v \<le> length (payload a))
       (frame_channel_pairs v)"

text \<open>
  The arena is laid out as \<open>decode_S\<close> builds it: descriptors in construction order over
  a payload of \<open>num_frames * channels * height * width\<close> bytes.
\<close>

definition built_by_decode :: "'a header_scheme \<Rightarrow> arena \<Rightarrow> bool" where
  "built_by_decode v a =
     (frame_descs a = build_frame_descs v \<and> channel_descs a = build_channel_descs v \<and>
      length (payload a) = nframes v * unat (channels v) * channel_size v)"

text \<open>
  A flat store is well formed when its buffer is present and holds one frame of
  \<open>frame_size\<close> bytes for each of its \<open>num_frames\<close> frames.
\<close>

definition wf_video :: "Video \<Rightarrow> bool" where
  "wf_video v = (case data v of None \<Rightarrow> False
                 | Some d \<Rightarrow> length d = nframes v * frame_size v)"

text \<open>
  An arena store is well formed for channel \<open>c\<close> when its block is present and the
  descriptor of channel \<open>c\<close> of each frame points at \<open>channel_size\<close> bytes that lie in
  the payload.
\<close>

definition channel_in_payload :: "SVideo \<Rightarrow> nat \<Rightarrow> bool" where
  "channel_in_payload v c =
     (case frames v of None \<Rightarrow> False
      | Some a \<Rightarrow> list_all (\<lambda>f. channel_data a f c + channel_size v \<le> length (payload a))
                    [0..<nframes v])"

section \<open>Updating a range of a buffer in place\<close>

lemma fold_update_length:
  "length (fold (\<lambda>i d. d[a + i := f (d ! (a + i))]) [0..<n] xs) = length xs"
  by (induction n) simp_all

lemma fold_update_nth:
  "a + n \<le> length xs \<Longrightarrow> k < length xs \<Longrightarrow>
   fold (\<lambda>i d. d[a + i := f (d ! (a + i))]) [0..<n] xs ! k =
     (if a \<le> k \<and> k < a + n then f (xs ! k) else xs ! k)"
proof (induction n arbitrary: k)
  case 0
  then show ?case by auto
next
  case (Suc n)
  let ?prev = "fold (\<lambda>i d. d[a + i := f (d ! (a + i))]) [0..<n] xs"
  have len: "length ?prev = length xs" by (rule fold_update_length)
  have ih: "?prev ! j = (if a \<le> j \<and> j < a + n then f (xs ! j) else xs ! j)"
    if "j < length xs" for j
    using Suc.IH [of j] Suc.prems that by simp
  show ?case
  proof (cases "k = a + n")
    case True
    then show ?thesis using Suc.prems len ih [of "a + n"] by simp
  next
    case False
    then show ?thesis using Suc.prems len ih [of k] by (simp add: nth_list_update)
  qed
qed

section \<open>Header reads\<close>

lemma read_header_eq:
  "read_header s = (if length s < 11 then None else Some (header_of s, drop 11 s))"
  by (auto simp: read_header_def fread_def header_of_def hd_drop_conv_nth)

section \<open>Null store in swap_channels_S\<close>

text \<open>
  Claim C7. A transform called with a null store must report it and return without
  touching anything, and the test itself must not read the store. \<open>swap_channels_S\<close>
  reads \<open>video->channels\<close> before it compares \<open>video\<close> with null, so a null store is
  dereferenced; \<open>clip_channel_S\<close>, in the same layout, tests for null first and reports.
\<close>

theorem swap_channels_S_null_store:
  "swap_channels_S None channel1 channel2 = Null_dereference \<and>
   clip_channel_S None channel lo hi =
     Reported ''Invalid input to clip_channel_SIMD_SVideo.'' None"
  by (simp add: swap_channels_S_def clip_channel_S_def)

section \<open>Scaling in the bulk-export variant\<close>

text \<open>
  Claim C8. The bulk-export transforms must leave the bytes that the core transforms
  leave; scaling must give \<open>clamp(round-toward-zero(v * factor), 0, 255)\<close>. On a store of
  one frame, one channel and one sample \<open>200\<close>, scaled by \<open>2.0\<close>, \<open>scale_channel_S\<close>
  leaves \<open>255\<close> while \<open>scale_channel_S_wasm\<close> returns \<open>0\<close> and leaves \<open>144\<close>: it
  converts \<open>400.0\<close> to \<open>unsigned char\<close> before it clamps.
\<close>

theorem scale_channel_S_wasm_differs:
  "scale_channel_S
     (Some \<lparr>num_frames = 1, channels = 1, height = 1, width = 1,
            frames = Some \<lparr>frame_descs = [0], channel_descs = [0], payload = [200]\<rparr>\<rparr>) 0 2 =
   Done
     (Some \<lparr>num_frames = 1, channels = 1, height = 1, width = 1,
            frames = Some \<lparr>frame_descs = [0], channel_descs = [0], payload = [255]\<rparr>\<rparr>) \<and>
   scale_channel_S_wasm
     (Some \<lparr>num_frames = 1, channels = 1, height = 1, width = 1,
            frames = Some \<lparr>frame_descs = [0], channel_descs = [0], payload = [200]\<rparr>\<rparr>) 0 2 =
   Some (0,
      Some \<lparr>num_frames = 1, channels = 1, height = 1, width = 1,
            frames = Some \<lparr>frame_descs = [0], channel_descs = [0], payload = [144]\<rparr>\<rparr>)"
  by (simp add: scale_channel_S_def scale_channel_S_wasm_def nframes_def channel_size_def
      scale_frame_S_def channel_data_def scale_sample_def scale_sample_wasm_def
      float_of_uchar_def uchar_of_float_def CLAMP_def)

section \<open>Malformed header values in decode\<close>

text \<open>
  Claim C9, as stated: a file whose header holds a malformed value such as
  \<open>channels = 0\<close> makes \<open>decode\<close> fail and return no store. It does not: the
  eleven-byte file with \<open>num_frames = 1\<close>, \<open>channels = 0\<close>, \<open>height = width = 1\<close> is
  decoded into a store with no channel and an empty buffer.
\<close>

theorem decode_zero_channels_counterexample:
  "decode (Some [1, 0, 0, 0, 0, 0, 0, 0, 0, 1, 1]) True True =
     Inr \<lparr>num_frames = 1, channels = 0, height = 1, width = 1, data = Some []\<rparr>"
  by (simp add: decode_def read_header_def fread_def bytes_long_def total_size_def
      frame_size_def)

text \<open>
  Claim C9, amended: \<open>decode\<close> looks at no header value. On a file that opens it
  returns no store exactly when an allocation fails, when the file has fewer than the
  eleven bytes of the header, or when fewer bytes follow the header than \<open>total_size\<close>
  asks for; in every other case it returns the store whose header fields are the ones
  read, whatever they are.
\<close>

theorem decode_does_not_validate_header:
  "decode (Some s) video_alloc data_alloc =
     (if \<not> video_alloc then Inl ''Error allocating memory for Video''
      else if length s < 11 then Inl ''Error reading video header''
      else if \<not> data_alloc then Inl ''Error allocating memory for frame data''
      else if length s - 11 < total_size (header_of s) then Inl ''Error reading frame data''
      else Inr \<lparr>num_frames = num_frames (header_of s), channels = channels (header_of s),
                height = height (header_of s), width = width (header_of s),
                data = Some (take (total_size (header_of s)) (drop 11 s))\<rparr>)"
  by (simp add: decode_def read_header_eq fread_def)

section \<open>Streaming decode at capacity one\<close>

lemma upt3: "[0..<3] = [0, 1, 2]"
  by (simp add: upt_rec)

lemma upt8: "[0..<8] = [0, 1, 2, 3, 4, 5, 6, 7]"
  by (simp add: upt_rec)

lemma replicate_numeral: "replicate (numeral k) x = x # replicate (pred_numeral k) x"
  by (simp add: numeral_eq_Suc)

lemma list_update_numeral: "(x # xs)[numeral k := y] = x # xs[pred_numeral k := y]"
  by (simp add: numeral_eq_Suc)

lemmas adapter_defs = on_frame_def grow_def copy_channel_def copy_pixel_def
  store_pointer_def load_pointer_def store_byte_def in_block_def realloc_block_def
  pointer_bytes_def bytes_pointer_def sizeof_Frame_def sizeof_Channel_def memcpy_to_def
  bytes_at_def

text \<open>
  A source of frames of one pixel, decoded into a block of capacity one at address
  \<open>4096\<close>: the state after the first frame.
\<close>

lemma first_frame_at_capacity_one:
  "on_frame 3 (Suc 0) (Suc 0) [10, 20, 30]
     \<lparr>memory_block = \<lparr>base = 4096, cells = replicate 35 None\<rparr>, channels_block = 4104,
      data_block = 4128, initial_capacity = Suc 0, frame_count = 0, allocator = al\<rparr> =
   Finished
     \<lparr>memory_block = \<lparr>base = 4096, cells =
        [Some 8, Some 16, Some 0, Some 0, Some 0, Some 0, Some 0, Some 0, Some 32, Some
        16, Some 0, Some 0, Some 0, Some 0, Some 0, Some 0, Some 33, Some 16, Some 0,
        Some 0, Some 0, Some 0, Some 0, Some 0, Some 34, Some 16, Some 0, Some 0, Some
        0, Some 0, Some 0, Some 0, Some 10, Some 20, Some 30]\<rparr>,
      channels_block = 4104, data_block = 4128, initial_capacity = 1, frame_count = 1,
      allocator = al\<rparr>"
  by (simp add: adapter_defs upt3 upt8 replicate_numeral list_update_numeral)

text \<open>The second frame, when \<open>realloc\<close> moves the block to \<open>8192\<close>.\<close>

lemma second_frame_after_realloc:
  "on_frame 3 (Suc 0) (Suc 0) [40, 50, 60]
     \<lparr>memory_block = \<lparr>base = 4096, cells =
        [Some 8, Some 16, Some 0, Some 0, Some 0, Some 0, Some 0, Some 0, Some 32, Some
        16, Some 0, Some 0, Some 0, Some 0, Some 0, Some 0, Some 33, Some 16, Some 0,
        Some 0, Some 0, Some 0, Some 0, Some 0, Some 34, Some 16, Some 0, Some 0, Some
        0, Some 0, Some 0, Some 0, Some 10, Some 20, Some 30]\<rparr>,
      channels_block = 4104, data_block = 4128, initial_capacity = Suc 0, frame_count = Suc 0,
      allocator = [Some 8192]\<rparr> =
   Finished
     \<lparr>memory_block = \<lparr>base = 8192, cells =
        [Some 8, Some 16, Some 0, Some 0, Some 0, Some 0, Some 0, Some 0, Some 40, Some
        32, Some 0, Some 0, Some 0, Some 0, Some 0, Some 0, Some 33, Some 16, Some 0,
        Some 0, Some 0, Some 0, Some 0, Some 0, Some 34, Some 16, Some 0, Some 0, Some
        0, Some 0, Some 0, Some 0, Some 10, Some 20, Some 30, None, None, None, None,
        None, Some 67, Some 32, Some 0, Some 0, Some 0, Some 0, Some 0, Some 0, Some 68,
        Some 32, Some 0, Some 0, Some 0, Some 0, Some 0, Some 0, Some 69, Some 32, Some
        0, Some 0, Some 0, Some 0, Some 0, Some 0, None, None, None, Some 40, Some 50,
        Some 60]\<rparr>,
      channels_block = 8208, data_block = 8256, initial_capacity = 2, frame_count = 2,
      allocator = []\<rparr>"
  by (simp add: adapter_defs upt3 upt8 replicate_numeral list_update_numeral)

text \<open>The second frame, when \<open>realloc\<close> returns no memory.\<close>

lemma second_frame_realloc_fails:
  "on_frame 3 (Suc 0) (Suc 0) [40, 50, 60]
     \<lparr>memory_block = \<lparr>base = 4096, cells =
        [Some 8, Some 16, Some 0, Some 0, Some 0, Some 0, Some 0, Some 0, Some 32, Some
        16, Some 0, Some 0, Some 0, Some 0, Some 0, Some 0, Some 33, Some 16, Some 0,
        Some 0, Some 0, Some 0, Some 0, Some 0, Some 34, Some 16, Some 0, Some 0, Some
        0, Some 0, Some 0, Some 0, Some 10, Some 20, Some 30]\<rparr>,
      channels_block = 4104, data_block = 4128, initial_capacity = Suc 0, frame_count = Suc 0,
      allocator = [None]\<rparr> =
   Aborted
     \<lparr>memory_block = \<lparr>base = 4096, cells =
        [Some 8, Some 16, Some 0, Some 0, Some 0, Some 0, Some 0, Some 0, Some 32, Some
        16, Some 0, Some 0, Some 0, Some 0, Some 0, Some 0, Some 33, Some 16, Some 0,
        Some 0, Some 0, Some 0, Some 0, Some 0, Some 34, Some 16, Some 0, Some 0, Some
        0, Some 0, Some 0, Some 0, Some 10, Some 20, Some 30]\<rparr>,
      channels_block = 4104, data_block = 4128, initial_capacity = 1, frame_count = 1,
      allocator = [None]\<rparr>"
  by (simp add: on_frame_def grow_def)

text \<open>
  Claim C1. After a growth every \<open>Frame\<close> and \<open>Channel\<close> reference must be
  recomputed from the new base, so that every reference of the finished store resolves
  into the final allocation. With an initial capacity of one and a source of two frames,
  \<open>realloc\<close> moving the block from \<open>4096\<close> to \<open>8192\<close>, the function returns a store
  of two frames whose \<open>frames[0].channels\<close> is still \<open>4104\<close>, an address of the block
  that \<open>realloc\<close> released: the code assigns \<open>svideo->frames\<close>, \<open>channels_block\<close> and
  \<open>data_block\<close> after the growth and leaves the descriptors of the frames already
  decoded as they were.
\<close>

theorem growth_leaves_stale_descriptors:
  "(case decode_standard_video
       \<lparr>opened = True, nb_frames = 1, estimate = None, ctx_width = 1, ctx_height = 1,
        rgb_linesize = 3, svideo_alloc = True, block_allocs = [Some 4096, Some 8192],
        packet_alloc = True,
        packets = [Video_frames [[10, 20, 30]] True, Video_frames [[40, 50, 60]] True]\<rparr> of
      Returned (Some sv) (Some b) \<Rightarrow>
        num_frames sv = 2 \<and> frames_ptr sv = 8192 \<and> base b = 8192 \<and>
        length (cells b) = 70 \<and> load_pointer (frames_ptr sv) b = Some 4104 \<and>
        \<not> in_block b 4104 8 \<and> \<not> descriptors_resolve sv b
    | _ \<Rightarrow> False)"
  by (simp add: decode_standard_video_def first_frame_at_capacity_one
      second_frame_after_realloc sizeof_Frame_def sizeof_Channel_def
      descriptors_resolve_def nframes_def load_pointer_def in_block_def bytes_at_def
      bytes_pointer_def upt_rec)

text \<open>
  Claim C10. When growing the arena fails, or the decoder reports an error in mid
  stream, the caller must receive no store. In both cases the function leaves the loop
  by \<open>goto cleanup\<close>, where neither \<open>svideo\<close> nor the block is released, and returns
  \<open>svideo\<close>: a non-null store with \<open>num_frames = 0\<close> whose block holds the frame decoded
  before the failure. (The header documents \<open>NULL\<close> on error, and the failure of the first
  \<open>malloc\<close> of the block does free \<open>svideo\<close> and return \<open>NULL\<close>.)
\<close>

theorem failed_growth_returns_store:
  "decode_standard_video
     \<lparr>opened = True, nb_frames = 1, estimate = None, ctx_width = 1, ctx_height = 1,
      rgb_linesize = 3, svideo_alloc = True, block_allocs = [Some 4096, None],
      packet_alloc = True,
      packets = [Video_frames [[10, 20, 30]] True, Video_frames [[40, 50, 60]] True]\<rparr> =
   Returned
     (Some \<lparr>num_frames = 0, channels = 3, height = 1, width = 1, frames_ptr = 4096\<rparr>)
     (Some \<lparr>base = 4096, cells =
        [Some 8, Some 16, Some 0, Some 0, Some 0, Some 0, Some 0, Some 0, Some 32, Some
        16, Some 0, Some 0, Some 0, Some 0, Some 0, Some 0, Some 33, Some 16, Some 0,
        Some 0, Some 0, Some 0, Some 0, Some 0, Some 34, Some 16, Some 0, Some 0, Some
        0, Some 0, Some 0, Some 0, Some 10, Some 20, Some 30]\<rparr>) \<and>
   decode_standard_video
     \<lparr>opened = True, nb_frames = 1, estimate = None, ctx_width = 1, ctx_height = 1,
      rgb_linesize = 3, svideo_alloc = True, block_allocs = [Some 4096],
      packet_alloc = True,
      packets = [Video_frames [[10, 20, 30]] False]\<rparr> =
   Returned
     (Some \<lparr>num_frames = 0, channels = 3, height = 1, width = 1, frames_ptr = 4096\<rparr>)
     (Some \<lparr>base = 4096, cells =
        [Some 8, Some 16, Some 0, Some 0, Some 0, Some 0, Some 0, Some 0, Some 32, Some
        16, Some 0, Some 0, Some 0, Some 0, Some 0, Some 0, Some 33, Some 16, Some 0,
        Some 0, Some 0, Some 0, Some 0, Some 0, Some 34, Some 16, Some 0, Some 0, Some
        0, Some 0, Some 0, Some 0, Some 10, Some 20, Some 30]\<rparr>) \<and>
   decode_standard_video
     \<lparr>opened = True, nb_frames = 1, estimate = None, ctx_width = 1, ctx_height = 1,
      rgb_linesize = 3, svideo_alloc = True, block_allocs = [None],
      packet_alloc = True,
      packets = [Video_frames [[10, 20, 30]] True]\<rparr> =
   Returned None None"
  by (simp add: decode_standard_video_def first_frame_at_capacity_one
      second_frame_realloc_fails sizeof_Frame_def sizeof_Channel_def)

section \<open>Ranges of a buffer\<close>


lemma fold_update_range_length:
  "length (fold (\<lambda>j d. d[a + j := f (d ! (a + j))]) [i..<n] xs) = length xs"
  by (induction n) simp_all

lemma fold_update_range_nth:
  "i \<le> n \<Longrightarrow> a + n \<le> length xs \<Longrightarrow> k < length xs \<Longrightarrow>
   fold (\<lambda>j d. d[a + j := f (d ! (a + j))]) [i..<n] xs ! k =
     (if a + i \<le> k \<and> k < a + n then f (xs ! k) else xs ! k)"
proof (induction n arbitrary: k)
  case 0
  then show ?case by auto
next
  case (Suc n)
  show ?case
  proof (cases "i = Suc n")
    case True
    then show ?thesis by auto
  next
    case False
    with Suc.prems have le: "i \<le> n" by simp
    let ?prev = "fold (\<lambda>j d. d[a + j := f (d ! (a + j))]) [i..<n] xs"
    have len: "length ?prev = length xs" by (rule fold_update_range_length)
    have ih: "?prev ! j = (if a + i \<le> j \<and> j < a + n then f (xs ! j) else xs ! j)"
      if "j < length xs" for j
      using Suc.IH [OF le _ that] Suc.prems by simp
    show ?thesis
    proof (cases "k = a + n")
      case True
      then show ?thesis using Suc.prems len le ih [of "a + n"] by simp
    next
      case False
      then show ?thesis using Suc.prems len le ih [of k] by (simp add: nth_list_update)
    qed
  qed
qed

lemma clip_range_length: "length (clip_range lo hi a n xs) = length xs"
  unfolding clip_range_def by (rule fold_update_length)

lemma clip_range_nth:
  "a + n \<le> length xs \<Longrightarrow> k < length xs \<Longrightarrow>
   clip_range lo hi a n xs ! k =
     (if a \<le> k \<and> k < a + n then CLAMP (xs ! k) lo hi else xs ! k)"
  unfolding clip_range_def by (rule fold_update_nth)

lemma CLAMP_idem: "lo \<le> hi \<Longrightarrow> CLAMP (CLAMP v lo hi) lo hi = CLAMP v lo hi"
  by (auto simp: CLAMP_def)

lemma CLAMP_bounds: "lo \<le> hi \<Longrightarrow> lo \<le> CLAMP v lo hi \<and> CLAMP v lo hi \<le> hi"
  by (auto simp: CLAMP_def)

lemma clip_frames_length:
  "length (fold (\<lambda>fr d. clip_range lo hi (off fr) n d) [0..<m] xs) = length xs"
  by (induction m) (simp_all add: clip_range_length)

lemma clip_frames_nth:
  assumes order: "lo \<le> hi"
    and bounds: "\<And>fr. fr < m \<Longrightarrow> off fr + n \<le> length xs"
    and k: "k < length xs"
  shows "fold (\<lambda>fr d. clip_range lo hi (off fr) n d) [0..<m] xs ! k =
         (if \<exists>fr<m. off fr \<le> k \<and> k < off fr + n then CLAMP (xs ! k) lo hi else xs ! k)"
  using bounds
proof (induction m)
  case 0
  then show ?case by simp
next
  case (Suc m)
  let ?prev = "fold (\<lambda>fr d. clip_range lo hi (off fr) n d) [0..<m] xs"
  have len: "length ?prev = length xs" by (rule clip_frames_length)
  have ih: "?prev ! k =
      (if \<exists>fr<m. off fr \<le> k \<and> k < off fr + n then CLAMP (xs ! k) lo hi else xs ! k)"
    using Suc by simp
  have step: "clip_range lo hi (off m) n ?prev ! k =
      (if off m \<le> k \<and> k < off m + n then CLAMP (?prev ! k) lo hi else ?prev ! k)"
    using Suc.prems [of m] k len by (simp add: clip_range_nth)
  show ?case
    using step ih CLAMP_idem [OF order] by (auto simp: less_Suc_eq)
qed

text \<open>A channel of a frame lies inside the frame, and the frame inside the buffer.\<close>

lemma channel_slice_in_frame:
  assumes "c < channels v"
  shows "unat c * channel_size v + channel_size v \<le> frame_size v"
proof -
  have "unat c < unat (channels v)" using assms by (simp add: word_less_nat_alt)
  then have "Suc (unat c) * channel_size v \<le> unat (channels v) * channel_size v"
    by (intro mult_le_mono1) simp
  then show ?thesis by (simp add: frame_size_def channel_size_def mult.assoc)
qed

lemma channel_slice_in_buffer:
  assumes "c < channels v" "f < m"
  shows "f * frame_size v + unat c * channel_size v + channel_size v \<le> m * frame_size v"
proof -
  have "Suc f * frame_size v \<le> m * frame_size v"
    using assms(2) by (intro mult_le_mono1) simp
  then show ?thesis using channel_slice_in_frame [OF assms(1)] by simp
qed

section \<open>clip_channel: bounds and idempotence\<close>

text \<open>
  Claim C3, as stated, for all values of \<open>lo\<close> and \<open>hi\<close>: it fails when
  \<open>lo > hi\<close>. With \<open>lo = 10\<close> and \<open>hi = 3\<close> the sample \<open>5\<close> becomes \<open>10\<close>,
  which is above \<open>hi\<close>, and the second call turns it into \<open>3\<close>.
\<close>

theorem clip_channel_inverted_bounds_counterexample:
  "clip_channel
     (Some \<lparr>num_frames = 1, channels = 1, height = 1, width = 1, data = Some [5]\<rparr>) 0 10 3 =
   Done (Some \<lparr>num_frames = 1, channels = 1, height = 1, width = 1, data = Some [10]\<rparr>) \<and>
   \<not> (10 :: byte) \<le> 3 \<and>
   clip_channel
     (Some \<lparr>num_frames = 1, channels = 1, height = 1, width = 1, data = Some [10]\<rparr>) 0 10 3 =
   Done (Some \<lparr>num_frames = 1, channels = 1, height = 1, width = 1, data = Some [3]\<rparr>)"
  by (simp add: clip_channel_def clip_range_def frame_size_def channel_size_def nframes_def
      CLAMP_def)

text \<open>
  Claim C3, amended: for a well-formed flat store, a channel index in range and bounds
  with \<open>lo \<le> hi\<close>, \<open>clip_channel\<close> leaves every sample of the channel in
  \<open>[lo, hi]\<close>, and a second call with the same arguments changes no byte.
\<close>

theorem clip_channel_bounded_idempotent:
  assumes wf: "wf_video v" and c: "channel < channels v" and order: "lo \<le> hi"
  shows "\<exists>d'. clip_channel (Some v) channel lo hi = Done (Some (v\<lparr>data := Some d'\<rparr>)) \<and>
     (\<forall>f i. f < nframes v \<and> i < channel_size v \<longrightarrow>
        lo \<le> d' ! (f * frame_size v + unat channel * channel_size v + i) \<and>
        d' ! (f * frame_size v + unat channel * channel_size v + i) \<le> hi) \<and>
     clip_channel (Some (v\<lparr>data := Some d'\<rparr>)) channel lo hi =
       Done (Some (v\<lparr>data := Some d'\<rparr>))"
proof -
  from wf obtain d where d: "data v = Some d" and len: "length d = nframes v * frame_size v"
    by (auto simp: wf_video_def split: option.splits)
  let ?off = "\<lambda>fr. fr * frame_size v + unat channel * channel_size v"
  let ?clip = "\<lambda>xs. fold (\<lambda>fr d. clip_range lo hi (?off fr) (channel_size v) d) [0..<nframes v] xs"
  let ?d' = "?clip d"
  have len': "length ?d' = length d" by (rule clip_frames_length)
  have bounds: "?off fr + channel_size v \<le> length xs"
    if "fr < nframes v" "length xs = length d" for fr xs
    using channel_slice_in_buffer [OF c that(1)] that(2) len by simp
  define inch where
    "inch k \<longleftrightarrow> (\<exists>fr<nframes v. ?off fr \<le> k \<and> k < ?off fr + channel_size v)" for k
  have nth1: "?clip xs ! k = (if inch k then CLAMP (xs ! k) lo hi else xs ! k)"
    if "k < length xs" "length xs = length d" for k xs
    unfolding inch_def
  proof (rule clip_frames_nth [where off = ?off, OF order _ that(1)])
    fix fr assume "fr < nframes v"
    then show "?off fr + channel_size v \<le> length xs" using bounds that(2) by blast
  qed
  have run: "clip_channel (Some v) channel lo hi = Done (Some (v\<lparr>data := Some ?d'\<rparr>))"
    using d c by (simp add: clip_channel_def not_le frame_size_def channel_size_def nframes_def)
  have inrange: "lo \<le> ?d' ! (?off f + i) \<and> ?d' ! (?off f + i) \<le> hi"
    if "f < nframes v" "i < channel_size v" for f i
  proof -
    have "?off f + i < length d" using bounds [OF that(1), of d] that(2) by simp
    moreover have "inch (?off f + i)"
      unfolding inch_def using that by (intro exI [of _ f]) simp
    ultimately have "?d' ! (?off f + i) = CLAMP (d ! (?off f + i)) lo hi"
      using nth1 [of "?off f + i" d] by simp
    then show ?thesis using CLAMP_bounds [OF order] by simp
  qed
  have again: "?clip ?d' = ?d'"
  proof (rule nth_equalityI)
    show "length (?clip ?d') = length ?d'" by (rule clip_frames_length)
  next
    fix k assume "k < length (?clip ?d')"
    then have k: "k < length d" by (simp add: clip_frames_length)
    show "?clip ?d' ! k = ?d' ! k"
      using nth1 [of k ?d'] nth1 [of k d] k len' CLAMP_idem [OF order]
      by (cases "inch k") simp_all
  qed
  have run2: "clip_channel (Some (v\<lparr>data := Some ?d'\<rparr>)) channel lo hi =
      Done (Some (v\<lparr>data := Some ?d'\<rparr>))"
    using c again
    by (simp add: clip_channel_def not_le frame_size_def channel_size_def nframes_def)
  show ?thesis using run inrange run2 by blast
qed

theorem clip_channel_bounded_idempotent_witness:
  "wf_video 
     \<lparr>num_frames = 3, channels = 2, height = 2, width = 2, data = Some
       [0, 1, 2, 3, 4, 5, 6, 7, 8, 9, 10, 11, 12, 13, 14, 15, 16, 17, 18, 19, 20, 21,
       22, 23]\<rparr> \<and> (0 :: byte) < channels 
     \<lparr>num_frames = 3, channels = 2, height = 2, width = 2, data = Some
       [0, 1, 2, 3, 4, 5, 6, 7, 8, 9, 10, 11, 12, 13, 14, 15, 16, 17, 18, 19, 20, 21,
       22, 23]\<rparr> \<and> (10 :: byte) \<le> 20 \<and>
   (\<exists>d'. clip_channel (Some 
     \<lparr>num_frames = 3, channels = 2, height = 2, width = 2, data = Some
       [0, 1, 2, 3, 4, 5, 6, 7, 8, 9, 10, 11, 12, 13, 14, 15, 16, 17, 18, 19, 20, 21,
       22, 23]\<rparr>) 0 10 20 = Done (Some (
     \<lparr>num_frames = 3, channels = 2, height = 2, width = 2, data = Some
       [0, 1, 2, 3, 4, 5, 6, 7, 8, 9, 10, 11, 12, 13, 14, 15, 16, 17, 18, 19, 20, 21,
       22, 23]\<rparr>\<lparr>data := Some d'\<rparr>)) \<and>
      10 \<le> d' ! 8 \<and> d' ! 8 \<le> 20 \<and>
      clip_channel (Some (
     \<lparr>num_frames = 3, channels = 2, height = 2, width = 2, data = Some
       [0, 1, 2, 3, 4, 5, 6, 7, 8, 9, 10, 11, 12, 13, 14, 15, 16, 17, 18, 19, 20, 21,
       22, 23]\<rparr>\<lparr>data := Some d'\<rparr>)) 0 10 20 =
        Done (Some (
     \<lparr>num_frames = 3, channels = 2, height = 2, width = 2, data = Some
       [0, 1, 2, 3, 4, 5, 6, 7, 8, 9, 10, 11, 12, 13, 14, 15, 16, 17, 18, 19, 20, 21,
       22, 23]\<rparr>\<lparr>data := Some d'\<rparr>)))"
proof -
  let ?v = "
     \<lparr>num_frames = 3, channels = 2, height = 2, width = 2, data = Some
       [0, 1, 2, 3, 4, 5, 6, 7, 8, 9, 10, 11, 12, 13, 14, 15, 16, 17, 18, 19, 20, 21,
       22, 23]\<rparr>"
  have h1: "wf_video ?v" by (simp add: wf_video_def nframes_def frame_size_def)
  have h2: "(0 :: byte) < channels ?v" by simp
  have h3: "(10 :: byte) \<le> 20" by simp
  from clip_channel_bounded_idempotent [OF h1 h2 h3]
  obtain d' where run: "clip_channel (Some ?v) 0 10 20 = Done (Some (?v\<lparr>data := Some d'\<rparr>))"
    and range: "\<And>f i. f < nframes ?v \<and> i < channel_size ?v \<Longrightarrow>
        10 \<le> d' ! (f * frame_size ?v + unat (0 :: byte) * channel_size ?v + i) \<and>
        d' ! (f * frame_size ?v + unat (0 :: byte) * channel_size ?v + i) \<le> 20"
    and again: "clip_channel (Some (?v\<lparr>data := Some d'\<rparr>)) 0 10 20 =
        Done (Some (?v\<lparr>data := Some d'\<rparr>))"
    by blast
  have "10 \<le> d' ! 8 \<and> d' ! 8 \<le> 20"
    using range [of 1 0] by (simp add: nframes_def channel_size_def frame_size_def)
  then show ?thesis using h1 h2 h3 run again by blast
qed

section \<open>clip_channel_S: the vector loop and the scalar rule\<close>


lemma bytes_at_length: "p + n \<le> length mem \<Longrightarrow> length (bytes_at mem p n) = n"
  by (simp add: bytes_at_def)

lemma bytes_at_nth: "p + n \<le> length mem \<Longrightarrow> j < n \<Longrightarrow> bytes_at mem p n ! j = mem ! (p + j)"
  by (simp add: bytes_at_def)

lemma memcpy_to_length:
  "p + length src \<le> length mem \<Longrightarrow> length (memcpy_to mem p src) = length mem"
  by (simp add: memcpy_to_def)

lemma memcpy_to_nth:
  "p + length src \<le> length mem \<Longrightarrow> k < length mem \<Longrightarrow>
   memcpy_to mem p src ! k = (if p \<le> k \<and> k < p + length src then src ! (k - p) else mem ! k)"
  by (auto simp: memcpy_to_def nth_append)

text \<open>One vector step clamps the 32 lanes it loads.\<close>

lemma vector_step_lanes:
  assumes "p + 32 \<le> length mem"
  shows "mm256_min_epu8 (mm256_max_epu8 (mm256_loadu_si256 mem p) (mm256_set1_epi8 lo))
           (mm256_set1_epi8 hi) = map (lanes_clip lo hi) (bytes_at mem p 32)"
proof (rule nth_equalityI)
  show "length (mm256_min_epu8 (mm256_max_epu8 (mm256_loadu_si256 mem p) (mm256_set1_epi8 lo))
           (mm256_set1_epi8 hi)) = length (map (lanes_clip lo hi) (bytes_at mem p 32))"
    using assms
    by (simp add: mm256_min_epu8_def mm256_max_epu8_def mm256_loadu_si256_def
        mm256_set1_epi8_def bytes_at_length)
next
  fix j
  assume "j < length (mm256_min_epu8 (mm256_max_epu8 (mm256_loadu_si256 mem p)
             (mm256_set1_epi8 lo)) (mm256_set1_epi8 hi))"
  then have j: "j < 32"
    using assms
    by (simp add: mm256_min_epu8_def mm256_max_epu8_def mm256_loadu_si256_def
        mm256_set1_epi8_def bytes_at_length)
  then show "mm256_min_epu8 (mm256_max_epu8 (mm256_loadu_si256 mem p) (mm256_set1_epi8 lo))
           (mm256_set1_epi8 hi) ! j = map (lanes_clip lo hi) (bytes_at mem p 32) ! j"
    using assms
    by (simp add: mm256_min_epu8_def mm256_max_epu8_def mm256_loadu_si256_def
        mm256_set1_epi8_def bytes_at_length lanes_clip_def)
qed

lemma vector_step_length:
  assumes "p + 32 \<le> length mem"
  shows "length (mm256_storeu_si256 mem p (map (lanes_clip lo hi) (bytes_at mem p 32))) = length mem"
  using assms by (simp add: mm256_storeu_si256_def memcpy_to_length bytes_at_length)

lemma vector_step_nth:
  assumes "p + 32 \<le> length mem" "k < length mem"
  shows "mm256_storeu_si256 mem p (map (lanes_clip lo hi) (bytes_at mem p 32)) ! k =
         (if p \<le> k \<and> k < p + 32 then lanes_clip lo hi (mem ! k) else mem ! k)"
proof (cases "p \<le> k \<and> k < p + 32")
  case True
  then have kp: "k - p < 32" "p + (k - p) = k" by auto
  have "map (lanes_clip lo hi) (bytes_at mem p 32) ! (k - p) =
        lanes_clip lo hi (bytes_at mem p 32 ! (k - p))"
    using kp(1) assms(1) by (simp add: bytes_at_length)
  also have "bytes_at mem p 32 ! (k - p) = mem ! k"
    using bytes_at_nth [OF assms(1) kp(1)] kp(2) by simp
  finally show ?thesis
    using assms True
    by (simp add: mm256_storeu_si256_def memcpy_to_nth bytes_at_length)
next
  case False
  then show ?thesis
    using assms by (auto simp: mm256_storeu_si256_def memcpy_to_nth bytes_at_length)
qed


lemma clip_batches_result:
  assumes "data_p + n \<le> length mem" "i \<le> n"
    and "clip_batches (mm256_set1_epi8 lo) (mm256_set1_epi8 hi) data_p n i mem = (i', mem')"
  shows "length mem' = length mem \<and> i \<le> i' \<and> i' \<le> n \<and>
         (\<forall>k < length mem.
            mem' ! k = (if data_p + i \<le> k \<and> k < data_p + i'
                        then lanes_clip lo hi (mem ! k) else mem ! k))"
  using assms
proof (induction "mm256_set1_epi8 lo" "mm256_set1_epi8 hi" data_p n i mem
    arbitrary: i' mem' rule: clip_batches.induct)
  case (1 data_p n i mem)
  let ?lo = "mm256_set1_epi8 lo" and ?hi = "mm256_set1_epi8 hi"
  show ?case
  proof (cases "i + 31 < n")
    case False
    then have "i' = i" "mem' = mem"
      using "1.prems"(3) by (simp_all add: clip_batches.simps [of ?lo ?hi data_p n i mem])
    then show ?thesis using "1.prems" by auto
  next
    case True
    let ?mem1 = "mm256_storeu_si256 mem (data_p + i)
                   (map (lanes_clip lo hi) (bytes_at mem (data_p + i) 32))"
    have inb: "data_p + i + 32 \<le> length mem" using True "1.prems" by simp
    have next_call: "clip_batches ?lo ?hi data_p n (i + 32) ?mem1 = (i', mem')"
      using True vector_step_lanes [OF inb, of lo hi] "1.prems"(3)
      by (simp add: clip_batches.simps [of ?lo ?hi data_p n i mem] Let_def)
    have len1: "length ?mem1 = length mem" by (rule vector_step_length [OF inb])
    have ih: "length mem' = length ?mem1 \<and> i + 32 \<le> i' \<and> i' \<le> n \<and>
         (\<forall>k < length ?mem1.
            mem' ! k = (if data_p + (i + 32) \<le> k \<and> k < data_p + i'
                        then lanes_clip lo hi (?mem1 ! k) else ?mem1 ! k))"
    proof (rule "1.hyps" [OF True refl refl, unfolded vector_step_lanes [OF inb]])
      show "data_p + n \<le> length ?mem1" using "1.prems"(1) len1 by simp
      show "i + 32 \<le> n" using True by simp
      show "clip_batches ?lo ?hi data_p n (i + 32) ?mem1 = (i', mem')" by (rule next_call)
    qed
    have step: "?mem1 ! k =
        (if data_p + i \<le> k \<and> k < data_p + i + 32 then lanes_clip lo hi (mem ! k) else mem ! k)"
      if "k < length mem" for k
      by (rule vector_step_nth [OF inb that])
    show ?thesis
    proof (intro conjI allI impI)
      show "length mem' = length mem" using ih len1 by simp
      show "i \<le> i'" using ih by simp
      show "i' \<le> n" using ih by simp
    next
      fix k assume k: "k < length mem"
      have "mem' ! k = (if data_p + (i + 32) \<le> k \<and> k < data_p + i'
                        then lanes_clip lo hi (?mem1 ! k) else ?mem1 ! k)"
        using ih k len1 by simp
      moreover have "i + 32 \<le> i'" using ih by simp
      ultimately show "mem' ! k = (if data_p + i \<le> k \<and> k < data_p + i'
                        then lanes_clip lo hi (mem ! k) else mem ! k)"
        using step [OF k] by auto
    qed
  qed
qed


lemma lanes_clip_CLAMP: "lo \<le> hi \<Longrightarrow> lanes_clip lo hi x = CLAMP x lo hi"
  by (auto simp: lanes_clip_def CLAMP_def min_def max_def)

lemma clip_tail_length: "length (clip_tail lo hi p n i mem) = length mem"
  unfolding clip_tail_def by (rule fold_update_range_length)

lemma clip_tail_nth:
  "i \<le> n \<Longrightarrow> p + n \<le> length mem \<Longrightarrow> k < length mem \<Longrightarrow>
   clip_tail lo hi p n i mem ! k =
     (if p + i \<le> k \<and> k < p + n then CLAMP (mem ! k) lo hi else mem ! k)"
  unfolding clip_tail_def by (rule fold_update_range_nth)

lemma clip_frame_S_scalar:
  assumes order: "lo \<le> hi"
    and inb: "channel_data a f c + channel_size v \<le> length mem"
  shows "clip_frame_S v a c lo hi f mem =
         clip_range lo hi (channel_data a f c) (channel_size v) mem"
proof -
  let ?p = "channel_data a f c" and ?n = "channel_size v"
  obtain i' mem' where
    b: "clip_batches (mm256_set1_epi8 lo) (mm256_set1_epi8 hi) ?p ?n 0 mem = (i', mem')"
    by (cases "clip_batches (mm256_set1_epi8 lo) (mm256_set1_epi8 hi) ?p ?n 0 mem")
  from clip_batches_result [OF inb _ b]
  have len: "length mem' = length mem" and i': "i' \<le> ?n"
    and vec: "\<And>k. k < length mem \<Longrightarrow>
           mem' ! k = (if ?p \<le> k \<and> k < ?p + i' then lanes_clip lo hi (mem ! k) else mem ! k)"
    by simp_all
  have run: "clip_frame_S v a c lo hi f mem = clip_tail lo hi ?p ?n i' mem'"
    using b by (simp add: clip_frame_S_def)
  show ?thesis
    unfolding run
  proof (rule nth_equalityI)
    show "length (clip_tail lo hi ?p ?n i' mem') = length (clip_range lo hi ?p ?n mem)"
      by (simp add: clip_tail_length clip_range_length len)
  next
    fix k assume "k < length (clip_tail lo hi ?p ?n i' mem')"
    then have k: "k < length mem" by (simp add: clip_tail_length len)
    have "clip_tail lo hi ?p ?n i' mem' ! k =
        (if ?p + i' \<le> k \<and> k < ?p + ?n then CLAMP (mem' ! k) lo hi else mem' ! k)"
      using clip_tail_nth [OF i', of ?p mem' k lo hi] inb k len by simp
    also have "\<dots> = (if ?p \<le> k \<and> k < ?p + ?n then CLAMP (mem ! k) lo hi else mem ! k)"
      using vec [OF k] i' lanes_clip_CLAMP [OF order] by auto
    also have "\<dots> = clip_range lo hi ?p ?n mem ! k"
      using clip_range_nth [OF inb k] by simp
    finally show "clip_tail lo hi ?p ?n i' mem' ! k = clip_range lo hi ?p ?n mem ! k" .
  qed
qed

lemma fold_agree:
  assumes "\<And>x s. x \<in> set xs \<Longrightarrow> P s \<Longrightarrow> f x s = g x s \<and> P (g x s)" and "P s"
  shows "fold f xs s = fold g xs s"
  using assms by (induction xs arbitrary: s) simp_all

lemma upt33: "[0..<33] = [0, 1, 2, 3, 4, 5, 6, 7, 8, 9, 10, 11, 12, 13, 14, 15, 16, 17, 18,
    19, 20, 21, 22, 23, 24, 25, 26, 27, 28, 29, 30, 31, 32]"
  by (simp add: upt_rec)

text \<open>
  A channel of 33 samples, all \<open>5\<close>, clipped with \<open>min_value = 10\<close> and
  \<open>max_value = 3\<close>: one vector step, then a tail of one sample.
\<close>

lemma inverted_vector_lanes:
  "mm256_min_epu8
     (mm256_max_epu8
        (mm256_loadu_si256
           [5, 5, 5, 5, 5, 5, 5, 5, 5, 5, 5, 5, 5, 5, 5, 5, 5, 5, 5, 5, 5, 5, 5, 5, 5, 5, 5,
     5, 5, 5, 5, 5, 5] 0)
        (mm256_set1_epi8 10))
     (mm256_set1_epi8 3) =
     [3, 3, 3, 3, 3, 3, 3, 3, 3, 3, 3, 3, 3, 3, 3, 3, 3, 3, 3, 3, 3, 3, 3, 3, 3, 3, 3,
     3, 3, 3, 3, 3]"
  by (simp add: mm256_set1_epi8_def mm256_loadu_si256_def mm256_max_epu8_def
      mm256_min_epu8_def bytes_at_def replicate_numeral)

lemma inverted_vector_store:
  "mm256_storeu_si256
     [5, 5, 5, 5, 5, 5, 5, 5, 5, 5, 5, 5, 5, 5, 5, 5, 5, 5, 5, 5, 5, 5, 5, 5, 5, 5, 5,
     5, 5, 5, 5, 5, 5] 0
     [3, 3, 3, 3, 3, 3, 3, 3, 3, 3, 3, 3, 3, 3, 3, 3, 3, 3, 3, 3, 3, 3, 3, 3, 3, 3, 3,
     3, 3, 3, 3, 3] =
     [3, 3, 3, 3, 3, 3, 3, 3, 3, 3, 3, 3, 3, 3, 3, 3, 3, 3, 3, 3, 3, 3, 3, 3, 3, 3, 3,
     3, 3, 3, 3, 3, 5]"
  by (simp add: mm256_storeu_si256_def memcpy_to_def)

lemma inverted_batches:
  "clip_batches (mm256_set1_epi8 10) (mm256_set1_epi8 3) 0 33 0
     [5, 5, 5, 5, 5, 5, 5, 5, 5, 5, 5, 5, 5, 5, 5, 5, 5, 5, 5, 5, 5, 5, 5, 5, 5, 5, 5,
     5, 5, 5, 5, 5, 5] =
   (32,
     [3, 3, 3, 3, 3, 3, 3, 3, 3, 3, 3, 3, 3, 3, 3, 3, 3, 3, 3, 3, 3, 3, 3, 3, 3, 3, 3,
     3, 3, 3, 3, 3, 5])"
  apply (subst clip_batches.simps)
  apply (simp add: inverted_vector_lanes inverted_vector_store)
  apply (subst clip_batches.simps)
  apply simp
  done

lemma inverted_tail:
  "clip_tail 10 3 0 33 32
     [3, 3, 3, 3, 3, 3, 3, 3, 3, 3, 3, 3, 3, 3, 3, 3, 3, 3, 3, 3, 3, 3, 3, 3, 3, 3, 3,
     3, 3, 3, 3, 3, 5] =
     [3, 3, 3, 3, 3, 3, 3, 3, 3, 3, 3, 3, 3, 3, 3, 3, 3, 3, 3, 3, 3, 3, 3, 3, 3, 3, 3,
     3, 3, 3, 3, 3, 10]"
  by (simp add: clip_tail_def CLAMP_def upt_rec list_update_numeral)

lemma inverted_scalar:
  "clip_range 10 3 0 33
     [5, 5, 5, 5, 5, 5, 5, 5, 5, 5, 5, 5, 5, 5, 5, 5, 5, 5, 5, 5, 5, 5, 5, 5, 5, 5, 5,
     5, 5, 5, 5, 5, 5] =
     [10, 10, 10, 10, 10, 10, 10, 10, 10, 10, 10, 10, 10, 10, 10, 10, 10, 10, 10, 10,
     10, 10, 10, 10, 10, 10, 10, 10, 10, 10, 10, 10, 10]"
  by (simp add: clip_range_def CLAMP_def upt33 list_update_numeral)

text \<open>
  Claim C2, as stated, with no ordering assumed between the bounds: it fails when
  \<open>min_value > max_value\<close>. On that channel the vector step leaves \<open>3\<close> in its 32
  lanes (\<open>min(max(5, 10), 3)\<close>), the tail leaves \<open>10\<close> in the last sample, and the scalar
  rule gives \<open>10\<close> for every sample.
\<close>

theorem clip_channel_S_inverted_bounds_counterexample:
  "clip_channel_S
     (Some \<lparr>num_frames = 1, channels = 1, height = 1, width = 33,
       frames = Some \<lparr>frame_descs = [0], channel_descs = [0], payload =
         [5, 5, 5, 5, 5, 5, 5, 5, 5, 5, 5, 5, 5, 5, 5, 5, 5, 5, 5, 5, 5, 5, 5, 5, 5, 5,
         5, 5, 5, 5, 5, 5, 5]\<rparr>\<rparr>) 0 10 3 =
   Done
     (Some \<lparr>num_frames = 1, channels = 1, height = 1, width = 33,
       frames = Some \<lparr>frame_descs = [0], channel_descs = [0], payload =
         [3, 3, 3, 3, 3, 3, 3, 3, 3, 3, 3, 3, 3, 3, 3, 3, 3, 3, 3, 3, 3, 3, 3, 3, 3, 3,
         3, 3, 3, 3, 3, 3, 10]\<rparr>\<rparr>) \<and>
   clip_scalar_rule
     \<lparr>num_frames = 1, channels = 1, height = 1, width = 33,
       frames = Some \<lparr>frame_descs = [0], channel_descs = [0], payload =
         [5, 5, 5, 5, 5, 5, 5, 5, 5, 5, 5, 5, 5, 5, 5, 5, 5, 5, 5, 5, 5, 5, 5, 5, 5, 5,
         5, 5, 5, 5, 5, 5, 5]\<rparr>\<rparr>
     \<lparr>frame_descs = [0], channel_descs = [0], payload =
         [5, 5, 5, 5, 5, 5, 5, 5, 5, 5, 5, 5, 5, 5, 5, 5, 5, 5, 5, 5, 5, 5, 5, 5, 5, 5,
         5, 5, 5, 5, 5, 5, 5]\<rparr> 0 10 3 =
     [10, 10, 10, 10, 10, 10, 10, 10, 10, 10, 10, 10, 10, 10, 10, 10, 10, 10, 10, 10,
     10, 10, 10, 10, 10, 10, 10, 10, 10, 10, 10, 10, 10]"
  by (simp add: clip_channel_S_def clip_frame_S_def clip_scalar_rule_def channel_data_def
      channel_size_def nframes_def inverted_batches inverted_tail inverted_scalar)

text \<open>
  Claim C2, amended: for an arena store whose channel \<open>c\<close> lies in the payload, and
  bounds with \<open>min_value \<le> max_value\<close>, the vector loop followed by the scalar tail of
  \<open>clip_channel_S\<close> leaves exactly the payload of the scalar rule, whatever the length of
  the channel; every sample of the channel is the \<open>CLAMP\<close> of the sample it replaces.
\<close>

theorem clip_channel_S_matches_scalar:
  assumes a: "frames v = Some a"
    and inb: "channel_in_payload v (unat channel)"
    and c: "channel < channels v"
    and order: "lo \<le> hi"
  shows "clip_channel_S (Some v) channel lo hi =
           Done (Some (v\<lparr>frames := Some (a\<lparr>payload :=
             clip_scalar_rule v a (unat channel) lo hi\<rparr>)\<rparr>)) \<and>
         (\<forall>f i. f < nframes v \<and> i < channel_size v \<longrightarrow>
            clip_scalar_rule v a (unat channel) lo hi ! (channel_data a f (unat channel) + i) =
              CLAMP (payload a ! (channel_data a f (unat channel) + i)) lo hi)"
proof -
  let ?c = "unat channel"
  have bounds: "channel_data a f ?c + channel_size v \<le> length (payload a)"
    if "f < nframes v" for f
    using inb a that by (simp add: channel_in_payload_def list_all_iff)
  have "fold (clip_frame_S v a ?c lo hi) [0..<nframes v] (payload a) =
        fold (\<lambda>frame_idx mem. clip_range lo hi (channel_data a frame_idx ?c) (channel_size v) mem)
          [0..<nframes v] (payload a)"
  proof (rule fold_agree [where P = "\<lambda>mem. length mem = length (payload a)"])
    fix f and mem :: "byte list"
    assume "f \<in> set [0..<nframes v]" and len: "length mem = length (payload a)"
    then have "channel_data a f ?c + channel_size v \<le> length mem" using bounds by simp
    then show "clip_frame_S v a ?c lo hi f mem =
                 clip_range lo hi (channel_data a f ?c) (channel_size v) mem \<and>
               length (clip_range lo hi (channel_data a f ?c) (channel_size v) mem) =
                 length (payload a)"
      using clip_frame_S_scalar [OF order] len by (simp add: clip_range_length)
  qed simp
  then have run: "clip_channel_S (Some v) channel lo hi =
           Done (Some (v\<lparr>frames := Some (a\<lparr>payload :=
             clip_scalar_rule v a ?c lo hi\<rparr>)\<rparr>))"
    using a c by (simp add: clip_channel_S_def clip_scalar_rule_def not_le)
  have elem: "clip_scalar_rule v a ?c lo hi ! (channel_data a f ?c + i) =
              CLAMP (payload a ! (channel_data a f ?c + i)) lo hi"
    if "f < nframes v" "i < channel_size v" for f i
  proof -
    have k: "channel_data a f ?c + i < length (payload a)" using bounds [OF that(1)] that(2) by simp
    have "clip_scalar_rule v a ?c lo hi ! (channel_data a f ?c + i) =
        (if \<exists>fr<nframes v. channel_data a fr ?c \<le> channel_data a f ?c + i \<and>
              channel_data a f ?c + i < channel_data a fr ?c + channel_size v
         then CLAMP (payload a ! (channel_data a f ?c + i)) lo hi
         else payload a ! (channel_data a f ?c + i))"
      unfolding clip_scalar_rule_def
      by (rule clip_frames_nth [where off = "\<lambda>fr. channel_data a fr ?c", OF order bounds k])
    moreover have "\<exists>fr<nframes v. channel_data a fr ?c \<le> channel_data a f ?c + i \<and>
              channel_data a f ?c + i < channel_data a fr ?c + channel_size v"
      using that by (intro exI [of _ f]) simp
    ultimately show ?thesis by simp
  qed
  show ?thesis using run elem by blast
qed


theorem clip_channel_S_matches_scalar_witness:
  "frames 
     \<lparr>num_frames = 1, channels = 1, height = 1, width = 33,
       frames = Some \<lparr>frame_descs = [0], channel_descs = [0], payload =
         [0, 1, 2, 3, 4, 5, 6, 7, 8, 9, 10, 11, 12, 13, 14, 15, 16, 17, 18, 19, 20, 21,
         22, 23, 24, 25, 26, 27, 28, 29, 30, 31, 32]\<rparr>\<rparr> = Some 
     \<lparr>frame_descs = [0], channel_descs = [0], payload =
         [0, 1, 2, 3, 4, 5, 6, 7, 8, 9, 10, 11, 12, 13, 14, 15, 16, 17, 18, 19, 20, 21,
         22, 23, 24, 25, 26, 27, 28, 29, 30, 31, 32]\<rparr> \<and>
   channel_in_payload 
     \<lparr>num_frames = 1, channels = 1, height = 1, width = 33,
       frames = Some \<lparr>frame_descs = [0], channel_descs = [0], payload =
         [0, 1, 2, 3, 4, 5, 6, 7, 8, 9, 10, 11, 12, 13, 14, 15, 16, 17, 18, 19, 20, 21,
         22, 23, 24, 25, 26, 27, 28, 29, 30, 31, 32]\<rparr>\<rparr> (unat (0 :: byte)) \<and>
   (0 :: byte) < channels 
     \<lparr>num_frames = 1, channels = 1, height = 1, width = 33,
       frames = Some \<lparr>frame_descs = [0], channel_descs = [0], payload =
         [0, 1, 2, 3, 4, 5, 6, 7, 8, 9, 10, 11, 12, 13, 14, 15, 16, 17, 18, 19, 20, 21,
         22, 23, 24, 25, 26, 27, 28, 29, 30, 31, 32]\<rparr>\<rparr> \<and> (3 :: byte) \<le> 10 \<and>
   clip_channel_S (Some 
     \<lparr>num_frames = 1, channels = 1, height = 1, width = 33,
       frames = Some \<lparr>frame_descs = [0], channel_descs = [0], payload =
         [0, 1, 2, 3, 4, 5, 6, 7, 8, 9, 10, 11, 12, 13, 14, 15, 16, 17, 18, 19, 20, 21,
         22, 23, 24, 25, 26, 27, 28, 29, 30, 31, 32]\<rparr>\<rparr>) 0 3 10 =
     Done (Some (
     \<lparr>num_frames = 1, channels = 1, height = 1, width = 33,
       frames = Some \<lparr>frame_descs = [0], channel_descs = [0], payload =
         [0, 1, 2, 3, 4, 5, 6, 7, 8, 9, 10, 11, 12, 13, 14, 15, 16, 17, 18, 19, 20, 21,
         22, 23, 24, 25, 26, 27, 28, 29, 30, 31, 32]\<rparr>\<rparr>\<lparr>frames := Some (
     \<lparr>frame_descs = [0], channel_descs = [0], payload =
         [0, 1, 2, 3, 4, 5, 6, 7, 8, 9, 10, 11, 12, 13, 14, 15, 16, 17, 18, 19, 20, 21,
         22, 23, 24, 25, 26, 27, 28, 29, 30, 31, 32]\<rparr>\<lparr>payload :=
        clip_scalar_rule 
     \<lparr>num_frames = 1, channels = 1, height = 1, width = 33,
       frames = Some \<lparr>frame_descs = [0], channel_descs = [0], payload =
         [0, 1, 2, 3, 4, 5, 6, 7, 8, 9, 10, 11, 12, 13, 14, 15, 16, 17, 18, 19, 20, 21,
         22, 23, 24, 25, 26, 27, 28, 29, 30, 31, 32]\<rparr>\<rparr> 
     \<lparr>frame_descs = [0], channel_descs = [0], payload =
         [0, 1, 2, 3, 4, 5, 6, 7, 8, 9, 10, 11, 12, 13, 14, 15, 16, 17, 18, 19, 20, 21,
         22, 23, 24, 25, 26, 27, 28, 29, 30, 31, 32]\<rparr> (unat (0 :: byte)) 3 10\<rparr>)\<rparr>)) \<and>
   clip_scalar_rule 
     \<lparr>num_frames = 1, channels = 1, height = 1, width = 33,
       frames = Some \<lparr>frame_descs = [0], channel_descs = [0], payload =
         [0, 1, 2, 3, 4, 5, 6, 7, 8, 9, 10, 11, 12, 13, 14, 15, 16, 17, 18, 19, 20, 21,
         22, 23, 24, 25, 26, 27, 28, 29, 30, 31, 32]\<rparr>\<rparr> 
     \<lparr>frame_descs = [0], channel_descs = [0], payload =
         [0, 1, 2, 3, 4, 5, 6, 7, 8, 9, 10, 11, 12, 13, 14, 15, 16, 17, 18, 19, 20, 21,
         22, 23, 24, 25, 26, 27, 28, 29, 30, 31, 32]\<rparr> (unat (0 :: byte)) 3 10 ! 32 = 10"
proof -
  let ?v = "
     \<lparr>num_frames = 1, channels = 1, height = 1, width = 33,
       frames = Some \<lparr>frame_descs = [0], channel_descs = [0], payload =
         [0, 1, 2, 3, 4, 5, 6, 7, 8, 9, 10, 11, 12, 13, 14, 15, 16, 17, 18, 19, 20, 21,
         22, 23, 24, 25, 26, 27, 28, 29, 30, 31, 32]\<rparr>\<rparr>"
  let ?a = "
     \<lparr>frame_descs = [0], channel_descs = [0], payload =
         [0, 1, 2, 3, 4, 5, 6, 7, 8, 9, 10, 11, 12, 13, 14, 15, 16, 17, 18, 19, 20, 21,
         22, 23, 24, 25, 26, 27, 28, 29, 30, 31, 32]\<rparr>"
  have h1: "frames ?v = Some ?a" by simp
  have h2: "channel_in_payload ?v (unat (0 :: byte))"
    by (simp add: channel_in_payload_def nframes_def channel_data_def channel_size_def)
  have h3: "(0 :: byte) < channels ?v" by simp
  have h4: "(3 :: byte) \<le> 10" by simp
  have "clip_scalar_rule ?v ?a (unat (0 :: byte)) 3 10 ! (channel_data ?a 0 (unat (0 :: byte)) + 32) =
        CLAMP (payload ?a ! (channel_data ?a 0 (unat (0 :: byte)) + 32)) 3 10"
    using clip_channel_S_matches_scalar [OF h1 h2 h3 h4]
    by (simp add: nframes_def channel_size_def)
  then have "clip_scalar_rule ?v ?a (unat (0 :: byte)) 3 10 ! 32 = 10"
    by (simp add: channel_data_def CLAMP_def)
  then show ?thesis
    using h1 h2 h3 h4 clip_channel_S_matches_scalar [OF h1 h2 h3 h4] by simp
qed

section \<open>reverse and reverse_S\<close>


lemma half_frames_eq: "half_frames v = nframes v div 2"
proof (cases "0 \<le> sint (num_frames v)")
  case True
  then show ?thesis
    by (simp add: half_frames_def nframes_def sdiv_int_div_0 signed_divide_int_def
        nat_div_distrib sgn_if)
next
  case False
  then show ?thesis
    by (simp add: half_frames_def nframes_def signed_divide_int_def sgn_if)
qed

lemma swap_frame_descs_length: "length (swap_frame_descs n i fd) = length fd"
  by (simp add: swap_frame_descs_def)

lemma reverse_S_loop_length:
  "length (fold (swap_frame_descs n) [0..<m] fd) = length fd"
  by (induction m) (simp_all add: swap_frame_descs_length)

lemma reverse_S_loop_nth:
  assumes "length fd = n" "m \<le> n div 2" "k < n"
  shows "fold (swap_frame_descs n) [0..<m] fd ! k =
         (if k < m \<or> n - m \<le> k then fd ! (n - 1 - k) else fd ! k)"
  using assms(2,3)
proof (induction m arbitrary: k)
  case 0
  then show ?case by simp
next
  case (Suc m)
  let ?prev = "fold (swap_frame_descs n) [0..<m] fd"
  have len: "length ?prev = n" using assms(1) by (simp add: reverse_S_loop_length)
  have m: "m < n - 1 - m" "n - 1 - m < n" "\<not> n - m \<le> m" "\<not> n - 1 - m < m"
    "\<not> n - m \<le> n - 1 - m" "m < n"
    using Suc.prems(1) by auto
  have ih: "?prev ! j = (if j < m \<or> n - m \<le> j then fd ! (n - 1 - j) else fd ! j)"
    if "j < n" for j
    using Suc.IH [OF _ that] Suc.prems(1) by simp
  have pm: "?prev ! m = fd ! m" using ih [of m] m by simp
  have pj: "?prev ! (n - 1 - m) = fd ! (n - 1 - m)" using ih [of "n - 1 - m"] m by simp
  have "fold (swap_frame_descs n) [0..<Suc m] fd ! k =
        (?prev[m := ?prev ! (n - 1 - m), n - 1 - m := ?prev ! m]) ! k"
    by (simp add: swap_frame_descs_def Let_def)
  also have "\<dots> = (if k = n - 1 - m then fd ! m else if k = m then fd ! (n - 1 - m)
                      else ?prev ! k)"
    using len m Suc.prems(2) pm pj by (simp add: nth_list_update)
  also have "\<dots> = (if k < Suc m \<or> n - Suc m \<le> k then fd ! (n - 1 - k) else fd ! k)"
    using ih [OF Suc.prems(2)] m Suc.prems by (auto simp: less_Suc_eq)
  finally show ?case .
qed

lemma reverse_S_loop_rev:
  assumes "length fd = n"
  shows "fold (swap_frame_descs n) [0..<n div 2] fd = rev fd"
proof (rule nth_equalityI)
  show "length (fold (swap_frame_descs n) [0..<n div 2] fd) = length (rev fd)"
    by (simp add: reverse_S_loop_length)
next
  fix k assume "k < length (fold (swap_frame_descs n) [0..<n div 2] fd)"
  then have k: "k < n" using assms by (simp add: reverse_S_loop_length)
  have "fold (swap_frame_descs n) [0..<n div 2] fd ! k = fd ! (n - 1 - k)"
  proof (cases "k < n div 2 \<or> n - n div 2 \<le> k")
    case True
    then show ?thesis using reverse_S_loop_nth [OF assms order_refl k] by simp
  next
    case False
    then have "n - 1 - k = k" using k by auto
    then show ?thesis using reverse_S_loop_nth [OF assms order_refl k] False by simp
  qed
  then show "fold (swap_frame_descs n) [0..<n div 2] fd ! k = rev fd ! k"
    using k assms by (simp add: rev_nth)
qed


lemma in_frame_iff:
  fixes fsz :: nat
  assumes "off < fsz"
  shows "(i * fsz \<le> f * fsz + off \<and> f * fsz + off < i * fsz + fsz) \<longleftrightarrow> f = i"
proof
  assume r: "i * fsz \<le> f * fsz + off \<and> f * fsz + off < i * fsz + fsz"
  have "(f * fsz + off) div fsz = f" using assms by simp
  moreover have "(f * fsz + off) div fsz = i"
    using r by (intro div_nat_eqI) (simp_all add: mult.commute)
  ultimately show "f = i" by simp
next
  assume "f = i"
  then show "i * fsz \<le> f * fsz + off \<and> f * fsz + off < i * fsz + fsz" using assms by simp
qed

lemma frame_in_buffer: "f < n \<Longrightarrow> f * fsz + fsz \<le> n * (fsz :: nat)"
proof -
  assume "f < n"
  then have "Suc f * fsz \<le> n * fsz" by (intro mult_le_mono1) simp
  then show ?thesis by simp
qed

lemma swap_frames_length:
  assumes "length d = n * fsz" "i < n" "n - 1 - i < n"
  shows "length (swap_frames fsz n i d) = length d"
  using assms frame_in_buffer [of i n fsz] frame_in_buffer [of "n - 1 - i" n fsz]
  by (simp add: swap_frames_def Let_def memcpy_to_length bytes_at_length)

lemma swap_frames_nth:
  assumes len: "length d = n * fsz" and i: "i < n - 1 - i" and f: "f < n" and off: "off < fsz"
  shows "swap_frames fsz n i d ! (f * fsz + off) =
         (if f = i then d ! ((n - 1 - i) * fsz + off)
          else if f = n - 1 - i then d ! (i * fsz + off)
          else d ! (f * fsz + off))"
proof -
  let ?j = "n - 1 - i"
  let ?k = "f * fsz + off"
  have jn: "?j < n" "i < n" "i \<noteq> ?j" using i by auto
  have bi: "i * fsz + fsz \<le> length d" using frame_in_buffer [OF jn(2)] len by simp
  have bj: "?j * fsz + fsz \<le> length d" using frame_in_buffer [OF jn(1)] len by simp
  have k: "?k < length d" using frame_in_buffer [OF f, of fsz] off len by simp
  let ?src = "bytes_at d (?j * fsz) fsz"
  let ?temp = "bytes_at d (i * fsz) fsz"
  let ?d1 = "memcpy_to d (i * fsz) ?src"
  have lsrc: "length ?src = fsz" and ltemp: "length ?temp = fsz"
    using bi bj by (simp_all add: bytes_at_length)
  have l1: "length ?d1 = length d" using bi lsrc by (simp add: memcpy_to_length)
  have d1: "?d1 ! ?k = (if f = i then d ! (?j * fsz + off) else d ! ?k)"
  proof (cases "f = i")
    case True
    then have "?d1 ! ?k = ?src ! off"
      using memcpy_to_nth [of "i * fsz" ?src d ?k] bi k lsrc off by simp
    then show ?thesis using True bytes_at_nth [OF bj off] by simp
  next
    case False
    then have "\<not> (i * fsz \<le> ?k \<and> ?k < i * fsz + fsz)" using in_frame_iff [OF off] by blast
    then show ?thesis
      using False memcpy_to_nth [of "i * fsz" ?src d ?k] bi k lsrc by auto
  qed
  have run: "swap_frames fsz n i d = memcpy_to ?d1 (?j * fsz) ?temp"
    by (simp add: swap_frames_def Let_def)
  show ?thesis
  proof (cases "f = ?j")
    case True
    then have "memcpy_to ?d1 (?j * fsz) ?temp ! ?k = ?temp ! off"
      using memcpy_to_nth [of "?j * fsz" ?temp ?d1 ?k] bj k l1 ltemp off by simp
    then show ?thesis using True jn run bytes_at_nth [OF bi off] by simp
  next
    case False
    then have "\<not> (?j * fsz \<le> ?k \<and> ?k < ?j * fsz + fsz)" using in_frame_iff [OF off] by blast
    then have "memcpy_to ?d1 (?j * fsz) ?temp ! ?k = ?d1 ! ?k"
      using memcpy_to_nth [of "?j * fsz" ?temp ?d1 ?k] bj k l1 ltemp by auto
    then show ?thesis using False run d1 by simp
  qed
qed

lemma reverse_loop_length:
  assumes "length d = n * fsz" "m \<le> n div 2"
  shows "length (fold (swap_frames fsz n) [0..<m] d) = length d"
  using assms(2)
proof (induction m)
  case 0
  then show ?case by simp
next
  case (Suc m)
  then have "m < n" "n - 1 - m < n" by auto
  then show ?case using Suc assms(1) by (simp add: swap_frames_length)
qed

lemma reverse_loop_nth:
  assumes len: "length d = n * fsz" and m: "m \<le> n div 2" and f: "f < n" and off: "off < fsz"
  shows "fold (swap_frames fsz n) [0..<m] d ! (f * fsz + off) =
         (if f < m \<or> n - m \<le> f then d ! ((n - 1 - f) * fsz + off) else d ! (f * fsz + off))"
  using m f
proof (induction m arbitrary: f)
  case 0
  then show ?case by simp
next
  case (Suc m)
  let ?prev = "fold (swap_frames fsz n) [0..<m] d"
  have mm: "m \<le> n div 2" using Suc.prems(1) by simp
  have plen: "length ?prev = n * fsz" using reverse_loop_length [OF len mm] len by simp
  have m: "m < n - 1 - m" "n - 1 - m < n" "\<not> n - m \<le> m" "\<not> n - 1 - m < m"
    "\<not> n - m \<le> n - 1 - m" "m < n" "n - 1 - (n - 1 - m) = m"
    using Suc.prems(1) by auto
  have ih: "?prev ! (g * fsz + off) =
      (if g < m \<or> n - m \<le> g then d ! ((n - 1 - g) * fsz + off) else d ! (g * fsz + off))"
    if "g < n" for g
    using Suc.IH [OF mm that] .
  have step: "swap_frames fsz n m ?prev ! (f * fsz + off) =
         (if f = m then ?prev ! ((n - 1 - m) * fsz + off)
          else if f = n - 1 - m then ?prev ! (m * fsz + off)
          else ?prev ! (f * fsz + off))"
    by (rule swap_frames_nth [OF plen m(1) Suc.prems(2) off])
  have "fold (swap_frames fsz n) [0..<Suc m] d ! (f * fsz + off) =
        swap_frames fsz n m ?prev ! (f * fsz + off)" by simp
  also have "\<dots> = (if f < Suc m \<or> n - Suc m \<le> f
                      then d ! ((n - 1 - f) * fsz + off) else d ! (f * fsz + off))"
  proof (cases "f = m")
    case True
    then show ?thesis using step ih [OF m(2)] m by simp
  next
    case False
    note nm = this
    show ?thesis
    proof (cases "f = n - 1 - m")
      case True
      then show ?thesis using step ih [OF m(6)] m nm by simp
    next
      case False
      then have "(f < Suc m \<or> n - Suc m \<le> f) = (f < m \<or> n - m \<le> f)"
        using nm Suc.prems by auto
      then show ?thesis using step ih [OF Suc.prems(2)] nm False by simp
    qed
  qed
  finally show ?case .
qed


text \<open>
  Claim C6. For a well-formed flat store (with the scratch frame allocated) and for an
  arena store with one \<open>Frame\<close> record per frame: \<open>reverse\<close> leaves, in frame \<open>f\<close>,
  the bytes that frame \<open>n - 1 - f\<close> held, for every \<open>f < n\<close> (so the pairs
  \<open>i\<close>, \<open>n - 1 - i\<close> with \<open>i < n / 2\<close> are exchanged and the middle frame of an odd
  count stays), and changes nothing when \<open>n \<le> 1\<close>; \<open>reverse_S\<close> reverses the list of
  \<open>Frame\<close> records and leaves the \<open>Channel\<close> records and the payload as they are, so
  that frame \<open>f\<close> of the result is the frame \<open>n - 1 - f\<close> of the input.
\<close>

theorem reverse_exchanges_frames:
  assumes wf: "wf_video v" and d: "data v = Some d"
    and a: "frames sv = Some a" and fd: "length (frame_descs a) = nframes sv"
  shows "(\<exists>d'. reverse True (Some v) = Done (Some (v\<lparr>data := Some d'\<rparr>)) \<and>
            length d' = length d \<and>
            (\<forall>f off. f < nframes v \<and> off < frame_size v \<longrightarrow>
               d' ! (f * frame_size v + off) =
                 d ! ((nframes v - 1 - f) * frame_size v + off)) \<and>
            (nframes v \<le> 1 \<longrightarrow> d' = d)) \<and>
         reverse_S (Some sv) =
           Done (Some (sv\<lparr>frames := Some (a\<lparr>frame_descs := rev (frame_descs a)\<rparr>)\<rparr>)) \<and>
         (\<forall>f c. f < nframes sv \<longrightarrow>
            channel_data (a\<lparr>frame_descs := rev (frame_descs a)\<rparr>) f c =
              channel_data a (nframes sv - 1 - f) c) \<and>
         (nframes sv \<le> 1 \<longrightarrow> reverse_S (Some sv) = Done (Some sv))"
proof -
  let ?n = "nframes v" and ?fs = "frame_size v"
  let ?d' = "fold (swap_frames ?fs ?n) [0..<?n div 2] d"
  have len: "length d = ?n * ?fs" using wf d by (simp add: wf_video_def)
  have run: "reverse True (Some v) = Done (Some (v\<lparr>data := Some ?d'\<rparr>))"
    using d by (simp add: reverse_def half_frames_eq)
  have len': "length ?d' = length d" by (rule reverse_loop_length [OF len order_refl])
  have nth: "?d' ! (f * ?fs + off) = d ! ((?n - 1 - f) * ?fs + off)"
    if "f < ?n" "off < ?fs" for f off
  proof (cases "f < ?n div 2 \<or> ?n - ?n div 2 \<le> f")
    case True
    then show ?thesis using reverse_loop_nth [OF len order_refl that] by simp
  next
    case False
    then have "?n - 1 - f = f" using that(1) by auto
    then show ?thesis using reverse_loop_nth [OF len order_refl that] False by simp
  qed
  have noop: "?d' = d" if "?n \<le> 1"
  proof -
    have "?n div 2 = 0" using that by auto
    then show ?thesis by simp
  qed
  have flat: "\<exists>d'. reverse True (Some v) = Done (Some (v\<lparr>data := Some d'\<rparr>)) \<and>
            length d' = length d \<and>
            (\<forall>f off. f < ?n \<and> off < ?fs \<longrightarrow>
               d' ! (f * ?fs + off) = d ! ((?n - 1 - f) * ?fs + off)) \<and>
            (?n \<le> 1 \<longrightarrow> d' = d)"
    using run len' nth noop by blast
  let ?m = "nframes sv"
  have loop: "fold (swap_frame_descs ?m) [0..<?m div 2] (frame_descs a) = rev (frame_descs a)"
    by (rule reverse_S_loop_rev [OF fd])
  have run_S: "reverse_S (Some sv) =
      Done (Some (sv\<lparr>frames := Some (a\<lparr>frame_descs := rev (frame_descs a)\<rparr>)\<rparr>))"
    using a loop by (simp add: reverse_S_def half_frames_eq)
  have order: "channel_data (a\<lparr>frame_descs := rev (frame_descs a)\<rparr>) f c =
      channel_data a (?m - 1 - f) c" if "f < ?m" for f c
    using that fd by (simp add: channel_data_def rev_nth)
  have noop_S: "reverse_S (Some sv) = Done (Some sv)" if "?m \<le> 1"
  proof -
    have "length (frame_descs a) \<le> 1" using that fd by simp
    then have "rev (frame_descs a) = frame_descs a"
      by (cases "frame_descs a") auto
    then show ?thesis using run_S a by simp
  qed
  show ?thesis using flat run_S order noop_S by blast
qed

theorem reverse_exchanges_frames_witness:
  "wf_video
     \<lparr>num_frames = 3, channels = 2, height = 2, width = 2, data = Some
       [0, 1, 2, 3, 4, 5, 6, 7, 8, 9, 10, 11, 12, 13, 14, 15, 16, 17, 18, 19, 20, 21, 22,
        23]\<rparr> \<and>
   data
     \<lparr>num_frames = 3, channels = 2, height = 2, width = 2, data = Some
       [0, 1, 2, 3, 4, 5, 6, 7, 8, 9, 10, 11, 12, 13, 14, 15, 16, 17, 18, 19, 20, 21, 22,
        23]\<rparr> = Some
       [0, 1, 2, 3, 4, 5, 6, 7, 8, 9, 10, 11, 12, 13, 14, 15, 16, 17, 18, 19, 20, 21, 22,
        23] \<and>
   frames
     \<lparr>num_frames = 3, channels = 2, height = 2, width = 2, frames = Some
       \<lparr>frame_descs = [0, 2, 4], channel_descs = [0, 4, 8, 12, 16, 20], payload =
       [0, 1, 2, 3, 4, 5, 6, 7, 8, 9, 10, 11, 12, 13, 14, 15, 16, 17, 18, 19, 20, 21, 22,
        23]\<rparr>\<rparr> = Some
     \<lparr>frame_descs = [0, 2, 4], channel_descs = [0, 4, 8, 12, 16, 20], payload =
       [0, 1, 2, 3, 4, 5, 6, 7, 8, 9, 10, 11, 12, 13, 14, 15, 16, 17, 18, 19, 20, 21, 22,
        23]\<rparr> \<and>
   length (frame_descs
     \<lparr>frame_descs = [0, 2, 4], channel_descs = [0, 4, 8, 12, 16, 20], payload =
       [0, 1, 2, 3, 4, 5, 6, 7, 8, 9, 10, 11, 12, 13, 14, 15, 16, 17, 18, 19, 20, 21, 22,
        23]\<rparr>) = nframes
     \<lparr>num_frames = 3, channels = 2, height = 2, width = 2, frames = Some
       \<lparr>frame_descs = [0, 2, 4], channel_descs = [0, 4, 8, 12, 16, 20], payload =
       [0, 1, 2, 3, 4, 5, 6, 7, 8, 9, 10, 11, 12, 13, 14, 15, 16, 17, 18, 19, 20, 21, 22,
        23]\<rparr>\<rparr> \<and>
   (\<exists>d'. reverse True (Some
     \<lparr>num_frames = 3, channels = 2, height = 2, width = 2, data = Some
       [0, 1, 2, 3, 4, 5, 6, 7, 8, 9, 10, 11, 12, 13, 14, 15, 16, 17, 18, 19, 20, 21, 22,
        23]\<rparr>) = Done (Some (
     \<lparr>num_frames = 3, channels = 2, height = 2, width = 2, data = Some
       [0, 1, 2, 3, 4, 5, 6, 7, 8, 9, 10, 11, 12, 13, 14, 15, 16, 17, 18, 19, 20, 21, 22,
        23]\<rparr>\<lparr>data := Some d'\<rparr>)) \<and> d' ! 0 = 16 \<and> d' ! 23 = 7) \<and>
   reverse_S (Some
     \<lparr>num_frames = 3, channels = 2, height = 2, width = 2, frames = Some
       \<lparr>frame_descs = [0, 2, 4], channel_descs = [0, 4, 8, 12, 16, 20], payload =
       [0, 1, 2, 3, 4, 5, 6, 7, 8, 9, 10, 11, 12, 13, 14, 15, 16, 17, 18, 19, 20, 21, 22,
        23]\<rparr>\<rparr>) = Done (Some
     \<lparr>num_frames = 3, channels = 2, height = 2, width = 2, frames = Some
       \<lparr>frame_descs = [4, 2, 0], channel_descs = [0, 4, 8, 12, 16, 20], payload =
       [0, 1, 2, 3, 4, 5, 6, 7, 8, 9, 10, 11, 12, 13, 14, 15, 16, 17, 18, 19, 20, 21, 22,
        23]\<rparr>\<rparr>)"
proof -
  let ?v = "\<lparr>num_frames = 3, channels = 2, height = 2, width = 2, data = Some
       [0, 1, 2, 3, 4, 5, 6, 7, 8, 9, 10, 11, 12, 13, 14, 15, 16, 17, 18, 19, 20, 21, 22,
        23]\<rparr>"
  let ?d = "[0, 1, 2, 3, 4, 5, 6, 7, 8, 9, 10, 11, 12, 13, 14, 15, 16, 17, 18, 19, 20, 21, 22,
        23]"
  let ?sv = "\<lparr>num_frames = 3, channels = 2, height = 2, width = 2, frames = Some
       \<lparr>frame_descs = [0, 2, 4], channel_descs = [0, 4, 8, 12, 16, 20], payload =
       [0, 1, 2, 3, 4, 5, 6, 7, 8, 9, 10, 11, 12, 13, 14, 15, 16, 17, 18, 19, 20, 21, 22,
        23]\<rparr>\<rparr>"
  let ?a = "\<lparr>frame_descs = [0, 2, 4], channel_descs = [0, 4, 8, 12, 16, 20], payload =
       [0, 1, 2, 3, 4, 5, 6, 7, 8, 9, 10, 11, 12, 13, 14, 15, 16, 17, 18, 19, 20, 21, 22,
        23]\<rparr>"
  have h1: "wf_video ?v" by (simp add: wf_video_def nframes_def frame_size_def)
  have h2: "data ?v = Some ?d" by simp
  have h3: "frames ?sv = Some ?a" by simp
  have h4: "length (frame_descs ?a) = nframes ?sv" by (simp add: nframes_def)
  note inst = reverse_exchanges_frames [OF h1 h2 h3 h4]
  from inst obtain d' where run: "reverse True (Some ?v) = Done (Some (?v\<lparr>data := Some d'\<rparr>))"
    and nth: "\<And>f off. f < nframes ?v \<and> off < frame_size ?v \<Longrightarrow>
        d' ! (f * frame_size ?v + off) = ?d ! ((nframes ?v - 1 - f) * frame_size ?v + off)"
    by blast
  have "d' ! 0 = 16" using nth [of 0 0] by (simp add: nframes_def frame_size_def)
  moreover have "d' ! 23 = 7" using nth [of 2 7] by (simp add: nframes_def frame_size_def)
  moreover have "reverse_S (Some ?sv) = Done (Some
     \<lparr>num_frames = 3, channels = 2, height = 2, width = 2, frames = Some
       \<lparr>frame_descs = [4, 2, 0], channel_descs = [0, 4, 8, 12, 16, 20], payload =
       [0, 1, 2, 3, 4, 5, 6, 7, 8, 9, 10, 11, 12, 13, 14, 15, 16, 17, 18, 19, 20, 21, 22,
        23]\<rparr>\<rparr>)"
    using inst by simp
  ultimately show ?thesis using h1 h2 h3 h4 run by blast
qed

section \<open>The binary codec: round trip and layout independence\<close>


lemma long_bytes_length: "length (long_bytes n) = 8"
  by (simp add: long_bytes_def)

lemma long_bytes_nth: "j < 8 \<Longrightarrow> long_bytes n ! j = ucast (drop_bit (8 * j) n)"
  by (simp add: long_bytes_def)

lemma bytes_long_long_bytes: "bytes_long (long_bytes n) = n"
proof (rule bit_word_eqI)
  fix k assume k: "k < LENGTH(64)"
  then have j: "k div 8 < 8" by simp
  have "bit (bytes_long (long_bytes n)) k \<longleftrightarrow>
        bit (horner_sum uint (2 ^ LENGTH(8)) (long_bytes n)) k"
    using k by (simp add: bytes_long_def bit_word_of_int_iff)
  also have "\<dots> \<longleftrightarrow> bit (long_bytes n ! (k div 8)) (k mod 8)"
    using j bit_horner_sum_uint_exp_iff [of "long_bytes n" k] by (simp add: long_bytes_length)
  also have "\<dots> \<longleftrightarrow> bit n (8 * (k div 8) + k mod 8)"
    using j by (simp add: long_bytes_nth bit_ucast_iff bit_drop_bit_eq)
  also have "8 * (k div 8) + k mod 8 = k" by simp
  finally show "bit (bytes_long (long_bytes n)) k \<longleftrightarrow> bit n k" .
qed

lemma unat_nframes:
  assumes "0 \<le> sint (num_frames v)"
  shows "unat (num_frames v) = nframes v"
proof -
  have "sint (num_frames v) < 2 ^ 64"
    using sint_less [of "num_frames v"] by simp
  then have "take_bit 64 (sint (num_frames v)) = sint (num_frames v)"
    using assms by (simp add: take_bit_int_eq_self)
  then have "uint (num_frames v) = sint (num_frames v)"
    using uint_sint [of "num_frames v"] by simp
  then have "nat (uint (num_frames v)) = nat (sint (num_frames v))" by simp
  then show ?thesis unfolding nframes_def by (simp only: unat_eq_nat_uint)
qed


lemma header_bytes_length: "length (header_bytes v) = 11"
  by (simp add: header_bytes_def long_bytes_length)

lemma write_header_eq:
  "write_header v \<lparr>written = w, room = r\<rparr> =
     (if r < 11 then None else Some \<lparr>written = w @ header_bytes v, room = r - 11\<rparr>)"
  by (auto simp: write_header_def fwrite_def header_bytes_def long_bytes_length)

lemma header_of_header_bytes:
  "header_of (header_bytes v @ rest) =
     \<lparr>num_frames = num_frames v, channels = channels v, height = height v, width = width v\<rparr>"
  by (simp add: header_of_def header_bytes_def long_bytes_length bytes_long_long_bytes
      nth_append)

lemma read_header_bytes:
  "read_header (header_bytes v @ rest) =
     Some (\<lparr>num_frames = num_frames v, channels = channels v, height = height v,
            width = width v\<rparr>, rest)"
  by (simp add: read_header_eq header_of_header_bytes header_bytes_length)

lemma total_size_header [simp]:
  "total_size \<lparr>num_frames = num_frames v, channels = channels v, height = height v,
      width = width v\<rparr> = total_size v"
  by (simp add: total_size_def frame_size_def)

lemma encode_eq:
  "encode (Some name) (Some r) (Some v) =
     (if r < 11 then Inl ''Error writing video header''
      else if r - 11 < length (take (total_size v) (case data v of None \<Rightarrow> [] | Some d \<Rightarrow> d))
      then Inl ''Error writing frame data''
      else Inr (header_bytes v @ take (total_size v) (case data v of None \<Rightarrow> [] | Some d \<Rightarrow> d)))"
  by (auto simp: encode_def write_header_eq fwrite_def)

lemma flat_total_size:
  assumes "wf_video v" "data v = Some d" "0 \<le> sint (num_frames v)" "length d < 2 ^ 64"
  shows "total_size v = length d"
proof -
  have "length d = nframes v * frame_size v" using assms(1,2) by (simp add: wf_video_def)
  then show ?thesis
    using assms(4) unat_nframes [OF assms(3)] by (simp add: total_size_def mult.commute)
qed

lemma flat_round_trip:
  assumes wf: "wf_video v" and d: "data v = Some d" and n: "0 \<le> sint (num_frames v)"
    and small: "length d < 2 ^ 64"
    and enc: "encode (Some name) (Some r) (Some v) = Inr out"
  shows "decode (Some out) True True = Inr v"
proof -
  have total: "total_size v = length d" by (rule flat_total_size [OF wf d n small])
  have out: "out = header_bytes v @ d"
    using enc d total by (simp add: encode_eq split: if_splits)
  have "decode (Some out) True True =
        Inr \<lparr>num_frames = num_frames v, channels = channels v, height = height v,
             width = width v, data = Some d\<rparr>"
    unfolding out by (simp add: decode_def read_header_bytes fread_def total)
  then show ?thesis using d by (cases v) simp
qed


lemma write_channel_None: "fold (write_channel v a) pairs None = None"
  by (induction pairs) (simp_all add: write_channel_def)

lemma write_channels_eq:
  "fold (write_channel v a) pairs (Some \<lparr>written = w, room = r\<rparr>) =
     (if length (concat (map (channel_bytes v a) pairs)) \<le> r
      then Some \<lparr>written = w @ concat (map (channel_bytes v a) pairs),
                 room = r - length (concat (map (channel_bytes v a) pairs))\<rparr>
      else None)"
proof (induction pairs arbitrary: w r)
  case Nil
  then show ?case by simp
next
  case (Cons fc pairs)
  show ?case
  proof (cases "length (channel_bytes v a fc) \<le> r")
    case True
    then have "write_channel v a fc (Some \<lparr>written = w, room = r\<rparr>) =
        Some \<lparr>written = w @ channel_bytes v a fc, room = r - length (channel_bytes v a fc)\<rparr>"
      by (simp add: write_channel_def fwrite_def channel_bytes_def bytes_at_def)
    then show ?thesis using True Cons.IH by auto
  next
    case False
    then have "write_channel v a fc (Some \<lparr>written = w, room = r\<rparr>) = None"
      by (simp add: write_channel_def fwrite_def channel_bytes_def bytes_at_def)
    then show ?thesis using False by (simp add: write_channel_None)
  qed
qed

lemma encode_S_eq:
  assumes "frames v = Some a"
  shows "encode_S (Some name) (Some r) (Some v) =
     Some (if r < 11 then Inl ''Error writing video header''
           else if r - 11 < length (logical_payload v a) then Inl ''Error writing Channel data''
           else Inr (header_bytes v @ logical_payload v a))"
  using assms
  by (auto simp: encode_S_def write_header_eq write_channels_eq logical_payload_def)

lemma frame_channel_pairs_length:
  "length (frame_channel_pairs v) = nframes v * unat (channels v)"
  by (simp add: frame_channel_pairs_def length_concat o_def sum_list_triv)

lemma concat_equal_lengths:
  "(\<And>x. x \<in> set xs \<Longrightarrow> length (g x) = n) \<Longrightarrow> length (concat (map g xs)) = length xs * n"
  by (induction xs) simp_all

lemma logical_payload_length:
  assumes "channels_in_payload v a"
  shows "length (logical_payload v a) = nframes v * unat (channels v) * channel_size v"
proof -
  have "length (channel_bytes v a fc) = channel_size v" if "fc \<in> set (frame_channel_pairs v)" for fc
    using assms that
    by (simp add: channels_in_payload_def list_all_iff channel_bytes_def bytes_at_length)
  then show ?thesis
    unfolding logical_payload_def
    using concat_equal_lengths [of "frame_channel_pairs v" "channel_bytes v a" "channel_size v"]
    by (simp add: frame_channel_pairs_length)
qed


lemma concat_blocks_length:
  "length (concat (map (\<lambda>f. map (g f) [0..<m]) [0..<n])) = n * m"
  by (induction n) simp_all

lemma concat_blocks_nth:
  assumes "f < n" "c < m"
  shows "concat (map (\<lambda>f. map (g f) [0..<m]) [0..<n]) ! (f * m + c) = g f c"
  using assms(1)
proof (induction n)
  case 0
  then show ?case by simp
next
  case (Suc n)
  show ?case
  proof (cases "f < n")
    case True
    then have "f * m + c < n * m"
      using frame_in_buffer [OF True, of m] assms(2) by simp
    then show ?thesis using Suc.IH [OF True] by (simp add: nth_append concat_blocks_length)
  next
    case False
    then have "f = n" using Suc.prems by simp
    then show ?thesis using assms(2) by (simp add: nth_append concat_blocks_length)
  qed
qed

lemma built_channel_data:
  assumes "built_by_decode v a" "f < nframes v" "c < unat (channels v)"
  shows "channel_data a f c = f * unat (channels v) * channel_size v + c * channel_size v"
proof -
  have "frame_descs a ! f = f * unat (channels v)"
    using assms(1,2) by (simp add: built_by_decode_def build_frame_descs_def)
  moreover have "channel_descs a ! (f * unat (channels v) + c) =
      f * unat (channels v) * channel_size v + c * channel_size v"
    using assms(1) concat_blocks_nth [OF assms(2,3)]
    by (simp add: built_by_decode_def build_channel_descs_def)
  ultimately show ?thesis by (simp add: channel_data_def)
qed

lemma frame_channel_pairs_set:
  "fc \<in> set (frame_channel_pairs v) \<longleftrightarrow> fst fc < nframes v \<and> snd fc < unat (channels v)"
  by (cases fc) (force simp: frame_channel_pairs_def)

lemma row_chunks:
  "concat (map (\<lambda>c. take cs (drop (b + c * cs) p)) [0..<k]) = take (k * cs) (drop b p)"
proof (induction k)
  case 0
  then show ?case by simp
next
  case (Suc k)
  have "concat (map (\<lambda>c. take cs (drop (b + c * cs) p)) [0..<Suc k]) =
        take (k * cs) (drop b p) @ take cs (drop (b + k * cs) p)"
    using Suc by simp
  also have "drop (b + k * cs) p = drop (k * cs) (drop b p)"
    by (simp add: add.commute)
  also have "take (k * cs) (drop b p) @ take cs (drop (k * cs) (drop b p)) =
             take (k * cs + cs) (drop b p)"
    by (rule take_add [symmetric])
  also have "k * cs + cs = Suc k * cs" by simp
  finally show ?case .
qed

lemma all_chunks:
  "concat (map (\<lambda>fc. take cs (drop (fst fc * nc * cs + snd fc * cs) p))
     (concat (map (\<lambda>f. map (\<lambda>c. (f, c)) [0..<nc]) [0..<n]))) = take (n * nc * cs) p"
proof (induction n)
  case 0
  then show ?case by simp
next
  case (Suc n)
  have row: "concat (map (\<lambda>fc. take cs (drop (fst fc * nc * cs + snd fc * cs) p))
                 (map (\<lambda>c. (n, c)) [0..<nc])) = take (nc * cs) (drop (n * nc * cs) p)"
    using row_chunks [of cs "n * nc * cs" p nc] by (simp add: o_def)
  have "concat (map (\<lambda>fc. take cs (drop (fst fc * nc * cs + snd fc * cs) p))
     (concat (map (\<lambda>f. map (\<lambda>c. (f, c)) [0..<nc]) [0..<Suc n]))) =
        take (n * nc * cs) p @ take (nc * cs) (drop (n * nc * cs) p)"
    using Suc row by simp
  also have "\<dots> = take (n * nc * cs + nc * cs) p"
    by (rule take_add [symmetric])
  also have "n * nc * cs + nc * cs = Suc n * nc * cs" by (simp add: add_mult_distrib)
  finally show ?case .
qed

lemma built_logical_payload:
  assumes "built_by_decode v a"
  shows "logical_payload v a = payload a"
proof -
  let ?nc = "unat (channels v)" and ?cs = "channel_size v"
  have eq: "map (channel_bytes v a) (frame_channel_pairs v) =
        map (\<lambda>fc. take ?cs (drop (fst fc * ?nc * ?cs + snd fc * ?cs) (payload a)))
          (frame_channel_pairs v)"
  proof (rule map_cong [OF refl])
    fix fc assume "fc \<in> set (frame_channel_pairs v)"
    then have "fst fc < nframes v" "snd fc < ?nc" by (simp_all add: frame_channel_pairs_set)
    then show "channel_bytes v a fc =
               take ?cs (drop (fst fc * ?nc * ?cs + snd fc * ?cs) (payload a))"
      using built_channel_data [OF assms] by (simp add: channel_bytes_def bytes_at_def)
  qed
  have "logical_payload v a =
        concat (map (\<lambda>fc. take ?cs (drop (fst fc * ?nc * ?cs + snd fc * ?cs) (payload a)))
          (frame_channel_pairs v))"
    unfolding logical_payload_def by (simp only: eq)
  also have "\<dots> = take (nframes v * ?nc * ?cs) (payload a)"
    unfolding frame_channel_pairs_def by (rule all_chunks)
  finally show ?thesis using assms by (simp add: built_by_decode_def)
qed

lemma tcds_exact:
  assumes "0 \<le> sint (num_frames v)"
    and "nframes v * unat (channels v) * channel_size v < 2 ^ 64"
  shows "total_channel_data_size v = nframes v * unat (channels v) * channel_size v"
  using assms(2) unat_nframes [OF assms(1)] by (simp add: total_channel_data_size_def)

lemma decode_S_of_encoded:
  assumes n: "0 \<le> sint (num_frames v)"
    and len: "length p = nframes v * unat (channels v) * channel_size v"
    and small: "length p < 2 ^ 64"
  shows "decode_S (Some (header_bytes v @ p)) True True =
     Inr \<lparr>num_frames = num_frames v, channels = channels v, height = height v,
          width = width v,
          frames = Some \<lparr>frame_descs = build_frame_descs v,
                         channel_descs = build_channel_descs v, payload = p\<rparr>\<rparr>"
proof -
  let ?h = "\<lparr>num_frames = num_frames v, channels = channels v, height = height v,
            width = width v\<rparr>"
  have "total_channel_data_size ?h = length p"
    using tcds_exact [of ?h] n len small
    by (simp add: nframes_def channel_size_def)
  moreover have "build_frame_descs ?h = build_frame_descs v"
    by (simp add: build_frame_descs_def nframes_def)
  moreover have "build_channel_descs ?h = build_channel_descs v"
    by (simp add: build_channel_descs_def nframes_def channel_size_def)
  ultimately show ?thesis
    by (simp add: decode_S_def read_header_bytes fread_def)
qed

lemma upt2: "[0..<2] = [0, 1]"
  by (simp add: upt_rec)

lemma long_bytes_3: "long_bytes 3 = [3, 0, 0, 0, 0, 0, 0, 0]"
  by (simp add: long_bytes_def upt8 drop_bit_eq_div)


lemma built_by_decode_header:
  "built_by_decode
     \<lparr>num_frames = num_frames v, channels = channels v, height = height v, width = width v,
      frames = Some a'\<rparr>
     \<lparr>frame_descs = build_frame_descs v, channel_descs = build_channel_descs v, payload = p\<rparr>
   \<longleftrightarrow> length p = nframes v * unat (channels v) * channel_size v"
  by (simp add: built_by_decode_def build_frame_descs_def build_channel_descs_def nframes_def
      channel_size_def)

lemma channel_bytes_header:
  "channel_bytes
     \<lparr>num_frames = num_frames v, channels = channels v, height = height v, width = width v,
      frames = x\<rparr> a = channel_bytes v a"
  by (rule ext) (simp add: channel_bytes_def channel_size_def)

lemma header_of_3222:
  "header_of
     [3, 0, 0, 0, 0, 0, 0, 0, 2, 2, 2, 16, 17, 18, 19, 20, 21, 22, 23, 8, 9, 10, 11,
        12, 13, 14, 15, 0, 1, 2, 3, 4, 5, 6, 7] =
   \<lparr>num_frames = 3, channels = 2, height = 2, width = 2\<rparr>"
  by (simp add: header_of_def bytes_long_def)

text \<open>
  Claim C4, as stated, for every store in either layout: it fails in the arena layout
  for a store whose \<open>Frame\<close> records are not in the order of construction. The store of
  three frames below is what \<open>reverse_S\<close> leaves of a decoded one (records \<open>[4, 2, 0]\<close>,
  payload in place). \<open>encode_S\<close> writes its frames in the order of the records, and
  \<open>decode_S\<close> of that file builds the records \<open>[0, 2, 4]\<close> over a payload region that
  holds frame 2, frame 1, frame 0: the header is the same, the payload region is not,
  and the decoded store is not the store that was encoded.
\<close>

theorem decode_S_relays_reversed_arena_counterexample:
  "encode_S (Some ''a'') (Some 100) (Some
     \<lparr>num_frames = 3, channels = 2, height = 2, width = 2, frames = Some
       \<lparr>frame_descs = [4, 2, 0], channel_descs = [0, 4, 8, 12, 16, 20], payload =
       [0, 1, 2, 3, 4, 5, 6, 7, 8, 9, 10, 11, 12, 13, 14, 15, 16, 17, 18, 19, 20, 21, 22,
        23]\<rparr>\<rparr>) = Some (Inr
       [3, 0, 0, 0, 0, 0, 0, 0, 2, 2, 2, 16, 17, 18, 19, 20, 21, 22, 23, 8, 9, 10, 11,
        12, 13, 14, 15, 0, 1, 2, 3, 4, 5, 6, 7]) \<and>
   decode_S (Some
       [3, 0, 0, 0, 0, 0, 0, 0, 2, 2, 2, 16, 17, 18, 19, 20, 21, 22, 23, 8, 9, 10, 11,
        12, 13, 14, 15, 0, 1, 2, 3, 4, 5, 6, 7]) True True = Inr
     \<lparr>num_frames = 3, channels = 2, height = 2, width = 2, frames = Some
       \<lparr>frame_descs = [0, 2, 4], channel_descs = [0, 4, 8, 12, 16, 20], payload =
       [16, 17, 18, 19, 20, 21, 22, 23, 8, 9, 10, 11, 12, 13, 14, 15, 0, 1, 2, 3, 4, 5, 6,
        7]\<rparr>\<rparr> \<and>
   decode_S (Some
       [3, 0, 0, 0, 0, 0, 0, 0, 2, 2, 2, 16, 17, 18, 19, 20, 21, 22, 23, 8, 9, 10, 11,
        12, 13, 14, 15, 0, 1, 2, 3, 4, 5, 6, 7]) True True \<noteq> Inr
     \<lparr>num_frames = 3, channels = 2, height = 2, width = 2, frames = Some
       \<lparr>frame_descs = [4, 2, 0], channel_descs = [0, 4, 8, 12, 16, 20], payload =
       [0, 1, 2, 3, 4, 5, 6, 7, 8, 9, 10, 11, 12, 13, 14, 15, 16, 17, 18, 19, 20, 21, 22,
        23]\<rparr>\<rparr>"
proof -
  have enc: "encode_S (Some ''a'') (Some 100) (Some
     \<lparr>num_frames = 3, channels = 2, height = 2, width = 2, frames = Some
       \<lparr>frame_descs = [4, 2, 0], channel_descs = [0, 4, 8, 12, 16, 20], payload =
       [0, 1, 2, 3, 4, 5, 6, 7, 8, 9, 10, 11, 12, 13, 14, 15, 16, 17, 18, 19, 20, 21, 22,
        23]\<rparr>\<rparr>) = Some (Inr
       [3, 0, 0, 0, 0, 0, 0, 0, 2, 2, 2, 16, 17, 18, 19, 20, 21, 22, 23, 8, 9, 10, 11,
        12, 13, 14, 15, 0, 1, 2, 3, 4, 5, 6, 7])"
    by (simp add: encode_S_def write_header_def write_channel_def fwrite_def long_bytes_3
        frame_channel_pairs_def nframes_def upt3 upt2 channel_data_def channel_size_def)
  have dec: "decode_S (Some
       [3, 0, 0, 0, 0, 0, 0, 0, 2, 2, 2, 16, 17, 18, 19, 20, 21, 22, 23, 8, 9, 10, 11,
        12, 13, 14, 15, 0, 1, 2, 3, 4, 5, 6, 7]) True True = Inr
     \<lparr>num_frames = 3, channels = 2, height = 2, width = 2, frames = Some
       \<lparr>frame_descs = [0, 2, 4], channel_descs = [0, 4, 8, 12, 16, 20], payload =
       [16, 17, 18, 19, 20, 21, 22, 23, 8, 9, 10, 11, 12, 13, 14, 15, 0, 1, 2, 3, 4, 5, 6,
        7]\<rparr>\<rparr>"
    by (simp add: decode_S_def read_header_eq header_of_3222 fread_def
        total_channel_data_size_def channel_size_def build_frame_descs_def
        build_channel_descs_def nframes_def upt3 upt2)
  show ?thesis using enc dec by simp
qed

text \<open>
  Claim C4, amended. On a device with room for the whole file, and with the
  allocations of the decoder succeeding: for every well-formed flat store with
  \<open>num_frames \<ge> 0\<close> whose buffer fits the address space, \<open>encode\<close> returns \<open>0\<close> and
  writes the header bytes followed by the buffer, and \<open>decode\<close> of that file returns the
  same store, header and buffer. For every arena store with \<open>num_frames \<ge> 0\<close> whose
  channels lie in its payload, \<open>encode_S\<close> returns \<open>0\<close> and writes the header bytes
  followed by the channels in the order of the descriptors, and \<open>decode_S\<close> of that file
  returns the store with the same four header fields, descriptors in the order of
  construction, and that sequence of channels as its payload: the same frames and
  channels as seen through the descriptors, and the same store, byte for byte, when the
  descriptors of the encoded store are in the order of construction.
\<close>

theorem encode_decode_round_trip:
  assumes wf: "wf_video v" and d: "data v = Some d" and n: "0 \<le> sint (num_frames v)"
    and small: "length d < 2 ^ 64"
    and room: "11 + length d \<le> r"
    and a: "frames sv = Some a" and inb: "channels_in_payload sv a"
    and n_S: "0 \<le> sint (num_frames sv)"
    and small_S: "nframes sv * unat (channels sv) * channel_size sv < 2 ^ 64"
    and room_S: "11 + nframes sv * unat (channels sv) * channel_size sv \<le> r_S"
  shows "encode (Some name) (Some r) (Some v) = Inr (header_bytes v @ d) \<and>
         decode (Some (header_bytes v @ d)) True True = Inr v \<and>
         encode_S (Some name_S) (Some r_S) (Some sv) =
           Some (Inr (header_bytes sv @ logical_payload sv a)) \<and>
         decode_S (Some (header_bytes sv @ logical_payload sv a)) True True =
           Inr \<lparr>num_frames = num_frames sv, channels = channels sv, height = height sv,
                width = width sv,
                frames = Some \<lparr>frame_descs = build_frame_descs sv,
                               channel_descs = build_channel_descs sv,
                               payload = logical_payload sv a\<rparr>\<rparr> \<and>
         logical_payload sv
           \<lparr>frame_descs = build_frame_descs sv, channel_descs = build_channel_descs sv,
            payload = logical_payload sv a\<rparr> = logical_payload sv a \<and>
         (built_by_decode sv a \<longrightarrow>
            decode_S (Some (header_bytes sv @ logical_payload sv a)) True True = Inr sv)"
proof -
  let ?lp = "logical_payload sv a"
  let ?a' = "\<lparr>frame_descs = build_frame_descs sv, channel_descs = build_channel_descs sv,
              payload = ?lp\<rparr>"
  let ?sv' = "\<lparr>num_frames = num_frames sv, channels = channels sv, height = height sv,
               width = width sv, frames = Some ?a'\<rparr>"
  have total: "total_size v = length d" by (rule flat_total_size [OF wf d n small])
  have enc: "encode (Some name) (Some r) (Some v) = Inr (header_bytes v @ d)"
    using room d total by (simp add: encode_eq)
  have dec: "decode (Some (header_bytes v @ d)) True True = Inr v"
    by (rule flat_round_trip [OF wf d n small enc])
  have len: "length ?lp = nframes sv * unat (channels sv) * channel_size sv"
    by (rule logical_payload_length [OF inb])
  have enc_S: "encode_S (Some name_S) (Some r_S) (Some sv) = Some (Inr (header_bytes sv @ ?lp))"
    using room_S len by (simp add: encode_S_eq [OF a])
  have dec_S: "decode_S (Some (header_bytes sv @ ?lp)) True True = Inr ?sv'"
    using decode_S_of_encoded [OF n_S len] small_S len by simp
  have "built_by_decode sv ?a'"
    using len by (simp add: built_by_decode_def)
  then have same_frames: "logical_payload sv ?a' = ?lp"
    using built_logical_payload [of sv ?a'] by simp
  have same: "decode_S (Some (header_bytes sv @ ?lp)) True True = Inr sv"
    if b: "built_by_decode sv a"
  proof -
    have "?lp = payload a" by (rule built_logical_payload [OF b])
    then have "?a' = a" using b by (cases a) (simp add: built_by_decode_def)
    then have "?sv' = sv" using a by (cases sv) simp
    then show ?thesis using dec_S by simp
  qed
  show ?thesis using enc dec enc_S dec_S same_frames same by blast
qed

theorem encode_decode_round_trip_witness:
  "wf_video
     \<lparr>num_frames = 3, channels = 2, height = 2, width = 2, data = Some
       [0, 1, 2, 3, 4, 5, 6, 7, 8, 9, 10, 11, 12, 13, 14, 15, 16, 17, 18, 19, 20, 21, 22,
        23]\<rparr> \<and>
   data
     \<lparr>num_frames = 3, channels = 2, height = 2, width = 2, data = Some
       [0, 1, 2, 3, 4, 5, 6, 7, 8, 9, 10, 11, 12, 13, 14, 15, 16, 17, 18, 19, 20, 21, 22,
        23]\<rparr> = Some
       [0, 1, 2, 3, 4, 5, 6, 7, 8, 9, 10, 11, 12, 13, 14, 15, 16, 17, 18, 19, 20, 21, 22,
        23] \<and>
   0 \<le> sint (num_frames
     \<lparr>num_frames = 3, channels = 2, height = 2, width = 2, data = Some
       [0, 1, 2, 3, 4, 5, 6, 7, 8, 9, 10, 11, 12, 13, 14, 15, 16, 17, 18, 19, 20, 21, 22,
        23]\<rparr>) \<and>
   length
       [0, 1, 2, 3, 4, 5, 6, 7, 8, 9, 10, 11, 12, 13, 14, 15, 16, 17, 18, 19, 20, 21, 22,
        23] < (2 :: nat) ^ 64 \<and>
   11 + length
       [0, 1, 2, 3, 4, 5, 6, 7, 8, 9, 10, 11, 12, 13, 14, 15, 16, 17, 18, 19, 20, 21, 22,
        23] \<le> (100 :: nat) \<and>
   frames
     \<lparr>num_frames = 3, channels = 2, height = 2, width = 2, frames = Some
       \<lparr>frame_descs = [4, 2, 0], channel_descs = [0, 4, 8, 12, 16, 20], payload =
       [0, 1, 2, 3, 4, 5, 6, 7, 8, 9, 10, 11, 12, 13, 14, 15, 16, 17, 18, 19, 20, 21, 22,
        23]\<rparr>\<rparr> = Some
     \<lparr>frame_descs = [4, 2, 0], channel_descs = [0, 4, 8, 12, 16, 20], payload =
       [0, 1, 2, 3, 4, 5, 6, 7, 8, 9, 10, 11, 12, 13, 14, 15, 16, 17, 18, 19, 20, 21, 22,
        23]\<rparr> \<and>
   channels_in_payload
     \<lparr>num_frames = 3, channels = 2, height = 2, width = 2, frames = Some
       \<lparr>frame_descs = [4, 2, 0], channel_descs = [0, 4, 8, 12, 16, 20], payload =
       [0, 1, 2, 3, 4, 5, 6, 7, 8, 9, 10, 11, 12, 13, 14, 15, 16, 17, 18, 19, 20, 21, 22,
        23]\<rparr>\<rparr>
     \<lparr>frame_descs = [4, 2, 0], channel_descs = [0, 4, 8, 12, 16, 20], payload =
       [0, 1, 2, 3, 4, 5, 6, 7, 8, 9, 10, 11, 12, 13, 14, 15, 16, 17, 18, 19, 20, 21, 22,
        23]\<rparr> \<and>
   0 \<le> sint (num_frames
     \<lparr>num_frames = 3, channels = 2, height = 2, width = 2, frames = Some
       \<lparr>frame_descs = [4, 2, 0], channel_descs = [0, 4, 8, 12, 16, 20], payload =
       [0, 1, 2, 3, 4, 5, 6, 7, 8, 9, 10, 11, 12, 13, 14, 15, 16, 17, 18, 19, 20, 21, 22,
        23]\<rparr>\<rparr>) \<and>
   encode (Some ''a'') (Some 100) (Some
     \<lparr>num_frames = 3, channels = 2, height = 2, width = 2, data = Some
       [0, 1, 2, 3, 4, 5, 6, 7, 8, 9, 10, 11, 12, 13, 14, 15, 16, 17, 18, 19, 20, 21, 22,
        23]\<rparr>) = Inr
       [3, 0, 0, 0, 0, 0, 0, 0, 2, 2, 2, 0, 1, 2, 3, 4, 5, 6, 7, 8, 9, 10, 11, 12, 13, 14,
        15, 16, 17, 18, 19, 20, 21, 22, 23] \<and>
   decode (Some
       [3, 0, 0, 0, 0, 0, 0, 0, 2, 2, 2, 0, 1, 2, 3, 4, 5, 6, 7, 8, 9, 10, 11, 12, 13, 14,
        15, 16, 17, 18, 19, 20, 21, 22, 23]) True True = Inr
     \<lparr>num_frames = 3, channels = 2, height = 2, width = 2, data = Some
       [0, 1, 2, 3, 4, 5, 6, 7, 8, 9, 10, 11, 12, 13, 14, 15, 16, 17, 18, 19, 20, 21, 22,
        23]\<rparr> \<and>
   encode_S (Some ''a'') (Some 100) (Some
     \<lparr>num_frames = 3, channels = 2, height = 2, width = 2, frames = Some
       \<lparr>frame_descs = [4, 2, 0], channel_descs = [0, 4, 8, 12, 16, 20], payload =
       [0, 1, 2, 3, 4, 5, 6, 7, 8, 9, 10, 11, 12, 13, 14, 15, 16, 17, 18, 19, 20, 21, 22,
        23]\<rparr>\<rparr>) = Some (Inr
       [3, 0, 0, 0, 0, 0, 0, 0, 2, 2, 2, 16, 17, 18, 19, 20, 21, 22, 23, 8, 9, 10, 11,
        12, 13, 14, 15, 0, 1, 2, 3, 4, 5, 6, 7]) \<and>
   decode_S (Some
       [3, 0, 0, 0, 0, 0, 0, 0, 2, 2, 2, 16, 17, 18, 19, 20, 21, 22, 23, 8, 9, 10, 11,
        12, 13, 14, 15, 0, 1, 2, 3, 4, 5, 6, 7]) True True = Inr
     \<lparr>num_frames = 3, channels = 2, height = 2, width = 2, frames = Some
       \<lparr>frame_descs = [0, 2, 4], channel_descs = [0, 4, 8, 12, 16, 20], payload =
       [16, 17, 18, 19, 20, 21, 22, 23, 8, 9, 10, 11, 12, 13, 14, 15, 0, 1, 2, 3, 4, 5, 6,
        7]\<rparr>\<rparr>"
proof -
  let ?v = "\<lparr>num_frames = 3, channels = 2, height = 2, width = 2, data = Some
       [0, 1, 2, 3, 4, 5, 6, 7, 8, 9, 10, 11, 12, 13, 14, 15, 16, 17, 18, 19, 20, 21, 22,
        23]\<rparr>"
  let ?d = "[0, 1, 2, 3, 4, 5, 6, 7, 8, 9, 10, 11, 12, 13, 14, 15, 16, 17, 18, 19, 20, 21, 22,
        23]"
  let ?sv = "\<lparr>num_frames = 3, channels = 2, height = 2, width = 2, frames = Some
       \<lparr>frame_descs = [4, 2, 0], channel_descs = [0, 4, 8, 12, 16, 20], payload =
       [0, 1, 2, 3, 4, 5, 6, 7, 8, 9, 10, 11, 12, 13, 14, 15, 16, 17, 18, 19, 20, 21, 22,
        23]\<rparr>\<rparr>"
  let ?a = "\<lparr>frame_descs = [4, 2, 0], channel_descs = [0, 4, 8, 12, 16, 20], payload =
       [0, 1, 2, 3, 4, 5, 6, 7, 8, 9, 10, 11, 12, 13, 14, 15, 16, 17, 18, 19, 20, 21, 22,
        23]\<rparr>"
  have h1: "wf_video ?v" by (simp add: wf_video_def nframes_def frame_size_def)
  have h2: "data ?v = Some ?d" by simp
  have h3: "0 \<le> sint (num_frames ?v)" by simp
  have h4: "length ?d < (2 :: nat) ^ 64" by simp
  have h5: "11 + length ?d \<le> (100 :: nat)" by simp
  have h6: "frames ?sv = Some ?a" by simp
  have h7: "channels_in_payload ?sv ?a"
    by (simp add: channels_in_payload_def frame_channel_pairs_def nframes_def upt3 upt2
        channel_data_def channel_size_def)
  have h8: "0 \<le> sint (num_frames ?sv)" by simp
  have h9: "nframes ?sv * unat (channels ?sv) * channel_size ?sv < 2 ^ 64"
    by (simp add: nframes_def channel_size_def)
  have h10: "11 + nframes ?sv * unat (channels ?sv) * channel_size ?sv \<le> (100 :: nat)"
    by (simp add: nframes_def channel_size_def)
  have hb: "header_bytes ?v @ ?d =
       [3, 0, 0, 0, 0, 0, 0, 0, 2, 2, 2, 0, 1, 2, 3, 4, 5, 6, 7, 8, 9, 10, 11, 12, 13, 14,
        15, 16, 17, 18, 19, 20, 21, 22, 23]"
    by (simp add: header_bytes_def long_bytes_3)
  have lp: "logical_payload ?sv ?a =
       [16, 17, 18, 19, 20, 21, 22, 23, 8, 9, 10, 11, 12, 13, 14, 15, 0, 1, 2, 3, 4, 5, 6,
        7]"
    by (simp add: logical_payload_def channel_bytes_def frame_channel_pairs_def nframes_def
        upt3 upt2 channel_data_def channel_size_def bytes_at_def)
  have hb_S: "header_bytes ?sv @
       [16, 17, 18, 19, 20, 21, 22, 23, 8, 9, 10, 11, 12, 13, 14, 15, 0, 1, 2, 3, 4, 5, 6,
        7] =
       [3, 0, 0, 0, 0, 0, 0, 0, 2, 2, 2, 16, 17, 18, 19, 20, 21, 22, 23, 8, 9, 10, 11,
        12, 13, 14, 15, 0, 1, 2, 3, 4, 5, 6, 7]"
    by (simp add: header_bytes_def long_bytes_3)
  have fd: "build_frame_descs ?sv = [0, 2, 4]"
    by (simp add: build_frame_descs_def nframes_def upt3)
  have cd: "build_channel_descs ?sv = [0, 4, 8, 12, 16, 20]"
    by (simp add: build_channel_descs_def nframes_def channel_size_def upt3 upt2)
  note inst = encode_decode_round_trip [OF h1 h2 h3 h4 h5 h6 h7 h8 h9 h10,
      of "''a''" "''a''"]
  from inst have c1: "encode (Some ''a'') (Some 100) (Some ?v) = Inr
       [3, 0, 0, 0, 0, 0, 0, 0, 2, 2, 2, 0, 1, 2, 3, 4, 5, 6, 7, 8, 9, 10, 11, 12, 13, 14,
        15, 16, 17, 18, 19, 20, 21, 22, 23]"
    using hb by simp
  from inst have c2: "decode (Some
       [3, 0, 0, 0, 0, 0, 0, 0, 2, 2, 2, 0, 1, 2, 3, 4, 5, 6, 7, 8, 9, 10, 11, 12, 13, 14,
        15, 16, 17, 18, 19, 20, 21, 22, 23]) True True = Inr ?v"
    using hb by simp
  from inst have c3: "encode_S (Some ''a'') (Some 100) (Some ?sv) = Some (Inr
       [3, 0, 0, 0, 0, 0, 0, 0, 2, 2, 2, 16, 17, 18, 19, 20, 21, 22, 23, 8, 9, 10, 11,
        12, 13, 14, 15, 0, 1, 2, 3, 4, 5, 6, 7])"
    using lp hb_S by simp
  from inst have c4: "decode_S (Some
       [3, 0, 0, 0, 0, 0, 0, 0, 2, 2, 2, 16, 17, 18, 19, 20, 21, 22, 23, 8, 9, 10, 11,
        12, 13, 14, 15, 0, 1, 2, 3, 4, 5, 6, 7]) True True = Inr
     \<lparr>num_frames = 3, channels = 2, height = 2, width = 2, frames = Some
       \<lparr>frame_descs = [0, 2, 4], channel_descs = [0, 4, 8, 12, 16, 20], payload =
       [16, 17, 18, 19, 20, 21, 22, 23, 8, 9, 10, 11, 12, 13, 14, 15, 0, 1, 2, 3, 4, 5, 6,
        7]\<rparr>\<rparr>"
    using lp hb_S fd cd by simp
  show ?thesis using h1 h2 h3 h4 h5 h6 h7 h8 c1 c2 c3 c4 by blast
qed

text \<open>
  Claim C5. A header with \<open>num_frames \<ge> 0\<close> and a sample sequence of the matching
  length are built into the flat store by \<open>decode\<close> and into the arena store by
  \<open>decode_S\<close>; \<open>encode\<close> of the first and \<open>encode_S\<close> of the second then write
  the same file (the header bytes followed by the samples), and one succeeds exactly when
  the other does.
\<close>

theorem layouts_serialize_identically:
  assumes n: "0 \<le> sint (num_frames h)"
    and len: "length p = nframes h * frame_size h"
    and small: "length p < 2 ^ 64"
  shows "decode (Some (header_bytes h @ p)) True True =
           Inr \<lparr>num_frames = num_frames h, channels = channels h, height = height h,
                width = width h, data = Some p\<rparr> \<and>
         decode_S (Some (header_bytes h @ p)) True True =
           Inr \<lparr>num_frames = num_frames h, channels = channels h, height = height h,
                width = width h,
                frames = Some \<lparr>frame_descs = build_frame_descs h,
                               channel_descs = build_channel_descs h, payload = p\<rparr>\<rparr> \<and>
         (encode (Some name) (Some r)
            (Some \<lparr>num_frames = num_frames h, channels = channels h, height = height h,
                   width = width h, data = Some p\<rparr>) = Inr out \<longleftrightarrow>
          encode_S (Some name) (Some r)
            (Some \<lparr>num_frames = num_frames h, channels = channels h, height = height h,
                   width = width h,
                   frames = Some \<lparr>frame_descs = build_frame_descs h,
                                  channel_descs = build_channel_descs h, payload = p\<rparr>\<rparr>)
            = Some (Inr out)) \<and>
         (11 + length p \<le> r \<longrightarrow>
          encode (Some name) (Some r)
            (Some \<lparr>num_frames = num_frames h, channels = channels h, height = height h,
                   width = width h, data = Some p\<rparr>) = Inr (header_bytes h @ p))"
proof -
  let ?flat = "\<lparr>num_frames = num_frames h, channels = channels h, height = height h,
                width = width h, data = Some p\<rparr>"
  let ?a = "\<lparr>frame_descs = build_frame_descs h, channel_descs = build_channel_descs h,
             payload = p\<rparr>"
  let ?arena = "\<lparr>num_frames = num_frames h, channels = channels h, height = height h,
                 width = width h, frames = Some ?a\<rparr>"
  have len_S: "length p = nframes h * unat (channels h) * channel_size h"
    using len by (simp add: frame_size_def channel_size_def mult.assoc)
  have hb: "header_bytes ?flat = header_bytes h" "header_bytes ?arena = header_bytes h"
    by (simp_all add: header_bytes_def)
  have total: "total_size ?flat = length p"
    using len small unat_nframes [OF n]
    by (simp add: total_size_def frame_size_def nframes_def mult.commute)
  have dec: "decode (Some (header_bytes h @ p)) True True = Inr ?flat"
    using total by (simp add: decode_def read_header_bytes fread_def total_size_def frame_size_def)
  have dec_S: "decode_S (Some (header_bytes h @ p)) True True = Inr ?arena"
    by (rule decode_S_of_encoded [OF n len_S small])
  have built: "built_by_decode ?arena ?a"
    using len_S by (simp add: built_by_decode_header)
  have lp: "logical_payload ?arena ?a = p"
    using built_logical_payload [OF built] by simp
  have enc: "encode (Some name) (Some r) (Some ?flat) =
      (if r < 11 then Inl ''Error writing video header''
       else if r - 11 < length p then Inl ''Error writing frame data''
       else Inr (header_bytes h @ p))"
    using total by (simp add: encode_eq hb)
  have enc_S: "encode_S (Some name) (Some r) (Some ?arena) =
      Some (if r < 11 then Inl ''Error writing video header''
            else if r - 11 < length p then Inl ''Error writing Channel data''
            else Inr (header_bytes h @ p))"
    using encode_S_eq [of ?arena ?a name r] lp hb by simp
  show ?thesis
    unfolding enc enc_S using dec dec_S by auto
qed

theorem layouts_serialize_identically_witness:
  "0 \<le> sint (num_frames \<lparr>num_frames = 3, channels = 2, height = 2, width = 2\<rparr>) \<and>
   length
       [0, 1, 2, 3, 4, 5, 6, 7, 8, 9, 10, 11, 12, 13, 14, 15, 16, 17, 18, 19, 20, 21, 22,
        23] = nframes \<lparr>num_frames = 3, channels = 2, height = 2, width = 2\<rparr> *
     frame_size \<lparr>num_frames = 3, channels = 2, height = 2, width = 2\<rparr> \<and>
   length
       [0, 1, 2, 3, 4, 5, 6, 7, 8, 9, 10, 11, 12, 13, 14, 15, 16, 17, 18, 19, 20, 21, 22,
        23] < (2 :: nat) ^ 64 \<and>
   encode (Some ''a'') (Some 100) (Some
     \<lparr>num_frames = 3, channels = 2, height = 2, width = 2, data = Some
       [0, 1, 2, 3, 4, 5, 6, 7, 8, 9, 10, 11, 12, 13, 14, 15, 16, 17, 18, 19, 20, 21, 22,
        23]\<rparr>) = Inr
       [3, 0, 0, 0, 0, 0, 0, 0, 2, 2, 2, 0, 1, 2, 3, 4, 5, 6, 7, 8, 9, 10, 11, 12, 13, 14,
        15, 16, 17, 18, 19, 20, 21, 22, 23] \<and>
   encode_S (Some ''a'') (Some 100) (Some
     \<lparr>num_frames = 3, channels = 2, height = 2, width = 2, frames = Some
       \<lparr>frame_descs = [0, 2, 4], channel_descs = [0, 4, 8, 12, 16, 20], payload =
       [0, 1, 2, 3, 4, 5, 6, 7, 8, 9, 10, 11, 12, 13, 14, 15, 16, 17, 18, 19, 20, 21, 22,
        23]\<rparr>\<rparr>) = Some (Inr
       [3, 0, 0, 0, 0, 0, 0, 0, 2, 2, 2, 0, 1, 2, 3, 4, 5, 6, 7, 8, 9, 10, 11, 12, 13, 14,
        15, 16, 17, 18, 19, 20, 21, 22, 23])"
proof -
  let ?h = "\<lparr>num_frames = 3, channels = 2, height = 2, width = 2\<rparr>"
  let ?p = "[0, 1, 2, 3, 4, 5, 6, 7, 8, 9, 10, 11, 12, 13, 14, 15, 16, 17, 18, 19, 20, 21, 22,
        23]"
  let ?out = "[3, 0, 0, 0, 0, 0, 0, 0, 2, 2, 2, 0, 1, 2, 3, 4, 5, 6, 7, 8, 9, 10, 11, 12, 13, 14,
        15, 16, 17, 18, 19, 20, 21, 22, 23]"
  have h1: "0 \<le> sint (num_frames ?h)" by simp
  have h2: "length ?p = nframes ?h * frame_size ?h" by (simp add: nframes_def frame_size_def)
  have h3: "length ?p < (2 :: nat) ^ 64" by simp
  have hb: "header_bytes ?h @ ?p = ?out" by (simp add: header_bytes_def long_bytes_3)
  have fd: "build_frame_descs ?h = [0, 2, 4]"
    by (simp add: build_frame_descs_def nframes_def upt3)
  have cd: "build_channel_descs ?h = [0, 4, 8, 12, 16, 20]"
    by (simp add: build_channel_descs_def nframes_def channel_size_def upt3 upt2)
  note inst = layouts_serialize_identically [OF h1 h2 h3, of "''a''" 100 ?out]
  from inst have e1: "encode (Some ''a'') (Some 100) (Some
     \<lparr>num_frames = 3, channels = 2, height = 2, width = 2, data = Some
       [0, 1, 2, 3, 4, 5, 6, 7, 8, 9, 10, 11, 12, 13, 14, 15, 16, 17, 18, 19, 20, 21, 22,
        23]\<rparr>) = Inr ?out"
    using hb by simp
  with inst have e2: "encode_S (Some ''a'') (Some 100) (Some
     \<lparr>num_frames = 3, channels = 2, height = 2, width = 2, frames = Some
       \<lparr>frame_descs = [0, 2, 4], channel_descs = [0, 4, 8, 12, 16, 20], payload =
       [0, 1, 2, 3, 4, 5, 6, 7, 8, 9, 10, 11, 12, 13, 14, 15, 16, 17, 18, 19, 20, 21, 22,
        23]\<rparr>\<rparr>) = Some (Inr ?out)"
    using fd cd by simp
  show ?thesis using h1 h2 h3 e1 e2 by blast
qed

end
